theory Spec2Isabelle
  imports Complex_Main
begin

section \<open>Data model\<close>

text \<open>
  The script \<^verbatim>\<open>apply_historical_to_monthly.py\<close> reads four tables of a MySQL
  database and upserts into a fifth. Each table is a list of rows, in the order the
  database returns them. The account codes, the month keys and the transaction dates
  are taken to be NOT NULL; every other column is nullable and is an \<open>option\<close>
  (\<open>None\<close> is SQL NULL, Python \<open>None\<close>). Monetary amounts are modelled as exact
  reals: the rounding of the Python floats is abstracted.
\<close>

record date =
  d_year :: nat
  d_month :: nat
  d_day :: nat

record ob_row =
  ob_account :: string
  ob_opening_balance :: "real option"
  ob_account_type :: "string option"
  ob_description :: "string option"

record hist_row =
  h_account :: string
  h_month_key :: string
  h_smoothened_amount :: "real option"
  h_journal_amount :: "real option"

record voucher_row =
  v_account_code :: string
  v_transaction_date :: date
  v_amount_original :: "real option"
  v_voucher :: "string option"

text \<open>
  A row of \<^verbatim>\<open>monthly_balance\<close>, without its key (account, month_key): the table is
  a map from the key to the rest of the row. The column \<^verbatim>\<open>opening_balance\<close> of this
  table stores the computed monthly value.
\<close>

record monthly_row =
  mb_opening_balance :: "real option"
  mb_description :: "string option"
  mb_account_type :: "string option"

type_synonym monthly_table = "string \<times> string \<Rightarrow> monthly_row option"

text \<open>The parameter dictionaries handed to \<^verbatim>\<open>upsert_monthly_rows\<close>.\<close>

record upsert_row =
  r_account :: string
  r_month_key :: string
  r_balance :: real
  r_description :: "string option"
  r_account_type :: "string option"

section \<open>Configuration\<close>

definition MONTHS :: "string list" where
  "MONTHS = [''2025-01'', ''2025-02'', ''2025-03'', ''2025-04'', ''2025-05'',
             ''2025-06'', ''2025-07'', ''2025-08'', ''2025-09'']"

definition OPENING_BALANCE_TABLE :: string where
  "OPENING_BALANCE_TABLE = ''opening_balance''"

definition HISTORICAL_TABLE :: string where
  "HISTORICAL_TABLE = ''historical_variance''"

definition MONTHLY_TABLE :: string where
  "MONTHLY_TABLE = ''monthly_balance''"

definition required_tables :: "string list" where
  "required_tables = [OPENING_BALANCE_TABLE, HISTORICAL_TABLE, MONTHLY_TABLE]"

section \<open>Strings\<close>

text \<open>
  \<^verbatim>\<open>str.lower\<close> on the ASCII letters (other bytes are kept), \<^verbatim>\<open>astype(str)\<close> on a
  nullable text column (\<open>None\<close> prints as the text \<^verbatim>\<open>None\<close>), \<^verbatim>\<open>str.contains\<close> with
  a pattern free of regular-expression operators (a substring test), and Python's
  \<^verbatim>\<open><=\<close> on strings (lexicographic on the character codes).
\<close>

definition lower_char :: "char \<Rightarrow> char" where
  "lower_char c =
     (let n = (of_char c :: nat) in if 65 \<le> n \<and> n \<le> 90 then char_of (n + 32) else c)"

definition str_lower :: "string \<Rightarrow> string" where
  "str_lower s = map lower_char s"

definition astype_str :: "string option \<Rightarrow> string" where
  "astype_str v = (case v of None \<Rightarrow> ''None'' | Some s \<Rightarrow> s)"

fun starts_with :: "string \<Rightarrow> string \<Rightarrow> bool" where
  "starts_with s [] = True"
| "starts_with [] (p # ps) = False"
| "starts_with (c # cs) (p # ps) = (c = p \<and> starts_with cs ps)"

fun str_contains :: "string \<Rightarrow> string \<Rightarrow> bool" where
  "str_contains [] p = starts_with [] p"
| "str_contains (c # cs) p = (starts_with (c # cs) p \<or> str_contains cs p)"

fun str_le :: "string \<Rightarrow> string \<Rightarrow> bool" where
  "str_le [] t = True"
| "str_le (a # as) [] = False"
| "str_le (a # as) (b # bs) =
     ((of_char a :: nat) < of_char b \<or> (a = b \<and> str_le as bs))"

text \<open>
  \<^verbatim>\<open>month_key.split('-')\<close> and \<^verbatim>\<open>int(...)\<close> on a piece. \<^verbatim>\<open>int\<close> is modelled on
  plain decimal digit strings, which is what the keys of \<open>MONTHS\<close> hold; anything else
  is the \<^verbatim>\<open>ValueError\<close> (\<open>None\<close>). A key with no dash has no piece 1
  (\<^verbatim>\<open>IndexError\<close>, also \<open>None\<close>).
\<close>

fun split_dash :: "string \<Rightarrow> string \<Rightarrow> string list" where
  "split_dash cur [] = [rev cur]"
| "split_dash cur (c # cs) =
     (if c = CHR ''-'' then rev cur # split_dash [] cs else split_dash (c # cur) cs)"

definition is_digit :: "char \<Rightarrow> bool" where
  "is_digit c = (48 \<le> (of_char c :: nat) \<and> (of_char c :: nat) \<le> 57)"

definition py_int :: "string \<Rightarrow> nat option" where
  "py_int s =
     (if s \<noteq> [] \<and> list_all is_digit s
      then Some (foldl (\<lambda>n c. 10 * n + (of_char c - 48)) 0 s)
      else None)"

definition parse_month_key :: "string \<Rightarrow> (nat \<times> nat) option" where
  "parse_month_key month_key =
     (case split_dash [] month_key of
        y # m # rest \<Rightarrow>
          (case py_int y of
             None \<Rightarrow> None
           | Some year \<Rightarrow>
               (case py_int m of None \<Rightarrow> None | Some month \<Rightarrow> Some (year, month)))
      | _ \<Rightarrow> None)"

section \<open>Account classification\<close>

definition acct_type_norm :: "ob_row \<Rightarrow> string" where
  "acct_type_norm r = str_lower (astype_str (ob_account_type r))"

definition mask_cum :: "ob_row \<Rightarrow> bool" where
  "mask_cum r =
     (str_contains (acct_type_norm r) ''asset'' \<or> str_contains (acct_type_norm r) ''liab'')"

definition mask_noncum :: "ob_row \<Rightarrow> bool" where
  "mask_noncum r =
     (str_contains (acct_type_norm r) ''income'' \<or> str_contains (acct_type_norm r) ''expens'')"

definition accounts_cum :: "ob_row list \<Rightarrow> string list" where
  "accounts_cum ob_df_all = map ob_account (filter mask_cum ob_df_all)"

definition accounts_noncum :: "ob_row list \<Rightarrow> string list" where
  "accounts_noncum ob_df_all = map ob_account (filter mask_noncum ob_df_all)"

section \<open>The voucher queries\<close>

text \<open>
  The \<^verbatim>\<open>WHERE\<close> clause shared by the two voucher queries. \<^verbatim>\<open>voucher NOT IN (...)\<close>
  is NULL, hence not true, on a NULL voucher. Text is compared exactly (a binary
  collation).
\<close>

definition marker_vouchers :: "string list" where
  "marker_vouchers = [''BRTFWD'', ''ROLCLR'', ''OBTFER'']"

definition voucher_not_in_markers :: "voucher_row \<Rightarrow> bool" where
  "voucher_not_in_markers r =
     (case v_voucher r of None \<Rightarrow> False | Some v \<Rightarrow> v \<notin> set marker_vouchers)"

definition voucher_where :: "string \<Rightarrow> nat \<Rightarrow> nat \<Rightarrow> voucher_row \<Rightarrow> bool" where
  "voucher_where acct year month r =
     (v_account_code r = acct
      \<and> d_year (v_transaction_date r) = year
      \<and> d_month (v_transaction_date r) = month
      \<and> voucher_not_in_markers r)"

text \<open>\<^verbatim>\<open>SUM\<close> skips NULL amounts and is NULL when nothing is left.\<close>

definition sql_sum :: "real option list \<Rightarrow> real option" where
  "sql_sum vs =
     (if list_all (\<lambda>v. v = None) vs then None
      else Some (sum_list (map (\<lambda>v. case v of None \<Rightarrow> 0 | Some x \<Rightarrow> x) vs)))"

definition coalesce0 :: "real option \<Rightarrow> real" where
  "coalesce0 v = (case v of None \<Rightarrow> 0 | Some x \<Rightarrow> x)"

text \<open>
  \<^verbatim>\<open>voucher_sum_q\<close> of the cumulative loop:
  \<^verbatim>\<open>SELECT COALESCE(SUM(amount_original), 0) ... WHERE account_code = :acct AND ...\<close>
\<close>

definition voucher_sum_q :: "voucher_row list \<Rightarrow> string \<Rightarrow> nat \<Rightarrow> nat \<Rightarrow> real" where
  "voucher_sum_q tbl acct year month =
     coalesce0 (sql_sum (map v_amount_original (filter (voucher_where acct year month) tbl)))"

text \<open>
  The grouped query of \<^verbatim>\<open>fetch_voucher_amounts_for_month\<close>, turned into a dictionary:
  one key for each requested account that has a row passing the \<^verbatim>\<open>WHERE\<close> clause.
  The \<^verbatim>\<open>IN\<close> list built by \<^verbatim>\<open>sql_in_list\<close> is modelled as list membership.
\<close>

definition voucher_amounts_q ::
  "voucher_row list \<Rightarrow> nat \<Rightarrow> nat \<Rightarrow> string list \<Rightarrow> (string \<Rightarrow> real option)" where
  "voucher_amounts_q tbl year month acct_list =
     (\<lambda>a. if a \<in> set acct_list \<and> list_ex (voucher_where a year month) tbl
          then Some (voucher_sum_q tbl a year month) else None)"

section \<open>The upsert statement\<close>

text \<open>
  \<^verbatim>\<open>NULLIF(x, '')\<close> and \<^verbatim>\<open>IFNULL(a, b)\<close>, and the effect of
  \<^verbatim>\<open>INSERT ... ON DUPLICATE KEY UPDATE\<close> for one parameter dictionary.
\<close>

definition nullif_empty :: "string option \<Rightarrow> string option" where
  "nullif_empty x = (if x = Some [] then None else x)"

definition ifnull :: "'a option \<Rightarrow> 'a option \<Rightarrow> 'a option" where
  "ifnull a b = (case a of None \<Rightarrow> b | Some v \<Rightarrow> Some v)"

definition insert_on_duplicate :: "monthly_table \<Rightarrow> upsert_row \<Rightarrow> monthly_table" where
  "insert_on_duplicate t r =
     (case t (r_account r, r_month_key r) of
        None \<Rightarrow>
          t((r_account r, r_month_key r) \<mapsto>
              \<lparr>mb_opening_balance = Some (r_balance r),
               mb_description = r_description r,
               mb_account_type = r_account_type r\<rparr>)
      | Some old \<Rightarrow>
          t((r_account r, r_month_key r) \<mapsto>
              \<lparr>mb_opening_balance = Some (r_balance r),
               mb_description = ifnull (nullif_empty (mb_description old)) (r_description r),
               mb_account_type = ifnull (nullif_empty (mb_account_type old)) (r_account_type r)\<rparr>))"

section \<open>The database connection\<close>

text \<open>
  The tables the script only reads, and what decides which statements raise: the
  \<open>n\<close>-th statement sent over the connection raises iff \<open>fails n\<close>. \<open>tables\<close> is
  the list of table names in \<^verbatim>\<open>information_schema\<close>.
\<close>

record env =
  fails :: "nat \<Rightarrow> bool"
  tables :: "string list"
  opening_balance_tbl :: "ob_row list"
  historical_variance_tbl :: "hist_row list"
  vouchers_tbl :: "voucher_row list"
  vouchers_curr_month_tbl :: "voucher_row list"

datatype stmt =
    CountTable string
  | SelectOpeningBalance
  | SelectHistorical bool string "string list"
  | SelectCurrMonthAugust "string list"
  | SelectVoucherAmounts string nat nat "string list"
  | SelectVoucherSum string string nat nat
  | SelectMonthly string "string list"
  | StartTransaction
  | InsertMonthly upsert_row
  | Commit
  | Rollback

datatype msg =
    MsgTableNotFound string
  | MsgNoRelevantAccounts
  | MsgProcessingAccounts nat nat
  | MsgErrorHistorical
  | MsgErrorVoucher string
  | MsgErrorMonthly
  | MsgErrorUpsert
  | MsgProcessingCum string
  | MsgUpsertedCum nat string
  | MsgProcessingNoncum string
  | MsgUpsertedNoncum nat string
  | MsgAllProcessed

datatype event = Stmt stmt bool | Print msg

text \<open>
  How the process ends: it runs to its last line, it calls \<^verbatim>\<open>sys.exit(n)\<close>, or an
  exception nobody catches ends it (status 1).
\<close>

datatype outcome = Finished | Exit nat | Uncaught

fun exit_status :: "outcome \<Rightarrow> nat" where
  "exit_status Finished = 0"
| "exit_status (Exit n) = n"
| "exit_status Uncaught = 1"

text \<open>
  What a run changes: the number of statements sent so far, the statements and printed
  lines in order (a statement with whether it succeeded), and \<^verbatim>\<open>monthly_balance\<close>.
\<close>

record state =
  clock :: nat
  trace :: "event list"
  monthly_balance_tbl :: monthly_table

definition db_exec :: "env \<Rightarrow> stmt \<Rightarrow> state \<Rightarrow> bool \<times> state" where
  "db_exec e q st =
     (\<not> fails e (clock st),
      st\<lparr>clock := Suc (clock st), trace := trace st @ [Stmt q (\<not> fails e (clock st))]\<rparr>)"

definition print_msg :: "msg \<Rightarrow> state \<Rightarrow> state" where
  "print_msg m st = st\<lparr>trace := trace st @ [Print m]\<rparr>"

section \<open>The helper functions of the script\<close>

text \<open>\<^verbatim>\<open>dict(zip(keys, values))\<close>: a later pair replaces an earlier one with its key.\<close>

definition dict_zip :: "('k \<times> 'v) list \<Rightarrow> ('k \<Rightarrow> 'v option)" where
  "dict_zip kvs = foldl (\<lambda>m kv. m(fst kv \<mapsto> snd kv)) Map.empty kvs"

fun check_tables :: "env \<Rightarrow> string list \<Rightarrow> state \<Rightarrow> (outcome + unit) \<times> state" where
  "check_tables e [] st = (Inr (), st)"
| "check_tables e (t # ts) st =
     (case db_exec e (CountTable t) st of
        (False, st1) \<Rightarrow> (Inl Uncaught, st1)
      | (True, st1) \<Rightarrow>
          if t \<notin> set (tables e)
          then (Inl (Exit 2), print_msg (MsgTableNotFound t) st1)
          else check_tables e ts st1)"

definition fetch_historical_for_month ::
  "env \<Rightarrow> string \<Rightarrow> string list \<Rightarrow> bool \<Rightarrow> state
   \<Rightarrow> (outcome + (string \<Rightarrow> real option)) \<times> state" where
  "fetch_historical_for_month e month_key acct_list use_smoothened st =
     (if use_smoothened \<and> str_le month_key ''2025-07'' then
        (case db_exec e (SelectHistorical True month_key acct_list) st of
           (False, st1) \<Rightarrow> (Inl (Exit 3), print_msg MsgErrorHistorical st1)
         | (True, st1) \<Rightarrow>
             (Inr (dict_zip (map (\<lambda>r. (h_account r, coalesce0 (h_smoothened_amount r)))
                      (filter (\<lambda>r. h_month_key r = month_key \<and> h_account r \<in> set acct_list)
                         (historical_variance_tbl e)))), st1))
      else if \<not> use_smoothened \<and> str_le month_key ''2025-07'' then
        (case db_exec e (SelectHistorical False month_key acct_list) st of
           (False, st1) \<Rightarrow> (Inl (Exit 3), print_msg MsgErrorHistorical st1)
         | (True, st1) \<Rightarrow>
             (Inr (dict_zip (map (\<lambda>r. (h_account r, coalesce0 (h_journal_amount r)))
                      (filter (\<lambda>r. h_month_key r = month_key \<and> h_account r \<in> set acct_list)
                         (historical_variance_tbl e)))), st1))
      else if month_key = ''2025-08'' then
        (case db_exec e (SelectCurrMonthAugust acct_list) st of
           (False, st1) \<Rightarrow> (Inl (Exit 3), print_msg MsgErrorHistorical st1)
         | (True, st1) \<Rightarrow>
             (Inr (\<lambda>a. if a \<in> set acct_list
                          \<and> list_ex (\<lambda>r. v_account_code r = a
                                \<and> d_year (v_transaction_date r) = 2025
                                \<and> d_month (v_transaction_date r) = 8)
                              (vouchers_curr_month_tbl e)
                       then Some (coalesce0 (sql_sum (map v_amount_original
                              (filter (\<lambda>r. v_account_code r = a
                                 \<and> d_year (v_transaction_date r) = 2025
                                 \<and> d_month (v_transaction_date r) = 8)
                                (vouchers_curr_month_tbl e)))))
                       else None), st1))
      else (Inr Map.empty, st))"

definition voucher_table_name :: "string \<Rightarrow> string" where
  "voucher_table_name month_key =
     (if str_le month_key ''2025-07'' then ''vouchers'' else ''vouchers_curr_month'')"

definition voucher_table :: "env \<Rightarrow> string \<Rightarrow> voucher_row list" where
  "voucher_table e table_name =
     (if table_name = ''vouchers'' then vouchers_tbl e else vouchers_curr_month_tbl e)"

definition fetch_voucher_amounts_for_month ::
  "env \<Rightarrow> string \<Rightarrow> string list \<Rightarrow> state \<Rightarrow> (string \<Rightarrow> real option) \<times> state" where
  "fetch_voucher_amounts_for_month e month_key acct_list st =
     (case parse_month_key month_key of
        None \<Rightarrow> (Map.empty, print_msg (MsgErrorVoucher month_key) st)
      | Some (year, month) \<Rightarrow>
          (let table_name = voucher_table_name month_key in
           case db_exec e (SelectVoucherAmounts table_name year month acct_list) st of
             (False, st1) \<Rightarrow> (Map.empty, print_msg (MsgErrorVoucher month_key) st1)
           | (True, st1) \<Rightarrow>
               (voucher_amounts_q (voucher_table e table_name) year month acct_list, st1)))"

definition fetch_monthly_for_month ::
  "env \<Rightarrow> string \<Rightarrow> string list \<Rightarrow> state
   \<Rightarrow> (outcome + (string \<Rightarrow> real option)) \<times> state" where
  "fetch_monthly_for_month e month_key acct_list st =
     (case db_exec e (SelectMonthly month_key acct_list) st of
        (False, st1) \<Rightarrow> (Inl (Exit 4), print_msg MsgErrorMonthly st1)
      | (True, st1) \<Rightarrow>
          (Inr (\<lambda>a. if a \<in> set acct_list
                    then map_option (\<lambda>r. coalesce0 (mb_opening_balance r))
                           (monthly_balance_tbl st1 (a, month_key))
                    else None), st1))"

text \<open>
  \<^verbatim>\<open>conn.execute(text(insert_sql), rows)\<close> sends the statement once for each
  dictionary, in order, and stops at the first one that raises.
\<close>

fun exec_inserts :: "env \<Rightarrow> upsert_row list \<Rightarrow> state \<Rightarrow> bool \<times> state" where
  "exec_inserts e [] st = (True, st)"
| "exec_inserts e (r # rs) st =
     (case db_exec e (InsertMonthly r) st of
        (False, st1) \<Rightarrow> (False, st1)
      | (True, st1) \<Rightarrow>
          exec_inserts e rs
            (st1\<lparr>monthly_balance_tbl := insert_on_duplicate (monthly_balance_tbl st1) r\<rparr>))"

text \<open>
  The \<^verbatim>\<open>except\<close> branch of \<^verbatim>\<open>upsert_monthly_rows\<close>. \<open>saved\<close> is the table as the
  last commit left it: the storage engine is taken to be transactional, so that
  \<^verbatim>\<open>ROLLBACK\<close> brings it back, and so does the end of the connection when
  \<^verbatim>\<open>ROLLBACK\<close> itself raises.
\<close>

definition upsert_except :: "env \<Rightarrow> monthly_table \<Rightarrow> state \<Rightarrow> (outcome + nat) \<times> state" where
  "upsert_except e saved st =
     (case db_exec e Rollback st of
        (False, st1) \<Rightarrow> (Inl Uncaught, st1\<lparr>monthly_balance_tbl := saved\<rparr>)
      | (True, st1) \<Rightarrow>
          (Inl (Exit 5), print_msg MsgErrorUpsert (st1\<lparr>monthly_balance_tbl := saved\<rparr>)))"

definition upsert_monthly_rows ::
  "env \<Rightarrow> upsert_row list \<Rightarrow> state \<Rightarrow> (outcome + nat) \<times> state" where
  "upsert_monthly_rows e rows st =
     (if rows = [] then (Inr 0, st)
      else
        (case db_exec e StartTransaction st of
           (False, st1) \<Rightarrow> upsert_except e (monthly_balance_tbl st) st1
         | (True, st1) \<Rightarrow>
             (case exec_inserts e rows st1 of
                (False, st2) \<Rightarrow> upsert_except e (monthly_balance_tbl st) st2
              | (True, st2) \<Rightarrow>
                  (case db_exec e Commit st2 of
                     (False, st3) \<Rightarrow> upsert_except e (monthly_balance_tbl st) st3
                   | (True, st3) \<Rightarrow> (Inr (length rows), st3)))))"

section \<open>The opening-balance dictionaries\<close>

definition ob_map :: "ob_row list \<Rightarrow> (string \<Rightarrow> real option)" where
  "ob_map ob_df_all =
     dict_zip (map (\<lambda>r. (ob_account r, coalesce0 (ob_opening_balance r))) ob_df_all)"

definition ob_desc_map :: "ob_row list \<Rightarrow> (string \<Rightarrow> string option option)" where
  "ob_desc_map ob_df_all = dict_zip (map (\<lambda>r. (ob_account r, ob_description r)) ob_df_all)"

definition ob_type_map :: "ob_row list \<Rightarrow> (string \<Rightarrow> string option option)" where
  "ob_type_map ob_df_all = dict_zip (map (\<lambda>r. (ob_account r, ob_account_type r)) ob_df_all)"

text \<open>\<^verbatim>\<open>d.get(k)\<close> and \<^verbatim>\<open>float(d.get(k, 0) or 0)\<close>.\<close>

definition dict_get :: "('k \<Rightarrow> 'v option option) \<Rightarrow> 'k \<Rightarrow> 'v option" where
  "dict_get d k = (case d k of None \<Rightarrow> None | Some v \<Rightarrow> v)"

definition get_or_0 :: "('k \<Rightarrow> real option) \<Rightarrow> 'k \<Rightarrow> real" where
  "get_or_0 d k = (case d k of None \<Rightarrow> 0 | Some v \<Rightarrow> v)"

section \<open>The two processing loops\<close>

text \<open>
  The rows of one batch: both loops build them the same way, from the opening-balance
  dictionaries and the voucher dictionary of the month.
\<close>

definition make_rows ::
  "ob_row list \<Rightarrow> string list \<Rightarrow> string \<Rightarrow> (string \<Rightarrow> real option) \<Rightarrow> upsert_row list" where
  "make_rows ob_df_all accts month_key voucher_map =
     map (\<lambda>acct.
            \<lparr>r_account = acct, r_month_key = month_key,
             r_balance = get_or_0 (ob_map ob_df_all) acct + get_or_0 voucher_map acct,
             r_description = dict_get (ob_desc_map ob_df_all) acct,
             r_account_type = dict_get (ob_type_map ob_df_all) acct\<rparr>)
         accts"

text \<open>The innermost loop \<^verbatim>\<open>for m in months_to_sum\<close>: no \<^verbatim>\<open>try\<close> around the query.\<close>

fun sum_months ::
  "env \<Rightarrow> string \<Rightarrow> string list \<Rightarrow> real \<Rightarrow> state \<Rightarrow> (outcome + real) \<times> state" where
  "sum_months e acct [] total_vouchers st = (Inr total_vouchers, st)"
| "sum_months e acct (m # ms) total_vouchers st =
     (case parse_month_key m of
        None \<Rightarrow> (Inl Uncaught, st)
      | Some (year, month_num) \<Rightarrow>
          (let table_name = voucher_table_name m in
           case db_exec e (SelectVoucherSum table_name acct year month_num) st of
             (False, st1) \<Rightarrow> (Inl Uncaught, st1)
           | (True, st1) \<Rightarrow>
               sum_months e acct ms
                 (total_vouchers + voucher_sum_q (voucher_table e table_name) acct year month_num)
                 st1))"

text \<open>The loop \<^verbatim>\<open>for acct in accounts_cum\<close> that fills \<^verbatim>\<open>cumulative_voucher_map\<close>.\<close>

fun cumulative_voucher_map ::
  "env \<Rightarrow> string list \<Rightarrow> string list \<Rightarrow> (string \<Rightarrow> real option) \<Rightarrow> state
   \<Rightarrow> (outcome + (string \<Rightarrow> real option)) \<times> state" where
  "cumulative_voucher_map e months_to_sum [] cvm st = (Inr cvm, st)"
| "cumulative_voucher_map e months_to_sum (acct # accts) cvm st =
     (case sum_months e acct months_to_sum 0 st of
        (Inl x, st1) \<Rightarrow> (Inl x, st1)
      | (Inr total_vouchers, st1) \<Rightarrow>
          cumulative_voucher_map e months_to_sum accts (cvm(acct \<mapsto> total_vouchers)) st1)"

text \<open>One iteration of \<^verbatim>\<open>for i, month_key in enumerate(MONTHS)\<close>.\<close>

definition cum_month ::
  "env \<Rightarrow> string list \<Rightarrow> nat \<Rightarrow> string \<Rightarrow> state \<Rightarrow> (outcome + unit) \<times> state" where
  "cum_month e accts i month_key st =
     (case cumulative_voucher_map e (take (i + 1) MONTHS) accts Map.empty
             (print_msg (MsgProcessingCum month_key) st) of
        (Inl x, st1) \<Rightarrow> (Inl x, st1)
      | (Inr cvm, st1) \<Rightarrow>
          (case upsert_monthly_rows e
                  (make_rows (opening_balance_tbl e) accts month_key cvm) st1 of
             (Inl x, st2) \<Rightarrow> (Inl x, st2)
           | (Inr n, st2) \<Rightarrow> (Inr (), print_msg (MsgUpsertedCum n month_key) st2)))"

fun cum_loop ::
  "env \<Rightarrow> string list \<Rightarrow> (nat \<times> string) list \<Rightarrow> state \<Rightarrow> (outcome + unit) \<times> state" where
  "cum_loop e accts [] st = (Inr (), st)"
| "cum_loop e accts ((i, month_key) # rest) st =
     (case cum_month e accts i month_key st of
        (Inl x, st1) \<Rightarrow> (Inl x, st1)
      | (Inr u, st1) \<Rightarrow> cum_loop e accts rest st1)"

text \<open>One iteration of \<^verbatim>\<open>for month_key in MONTHS\<close> of the non-cumulative accounts.\<close>

definition noncum_month ::
  "env \<Rightarrow> string list \<Rightarrow> string \<Rightarrow> state \<Rightarrow> (outcome + unit) \<times> state" where
  "noncum_month e accts month_key st =
     (case fetch_voucher_amounts_for_month e month_key accts
             (print_msg (MsgProcessingNoncum month_key) st) of
        (voucher_map, st1) \<Rightarrow>
          (case upsert_monthly_rows e
                  (make_rows (opening_balance_tbl e) accts month_key voucher_map) st1 of
             (Inl x, st2) \<Rightarrow> (Inl x, st2)
           | (Inr n, st2) \<Rightarrow> (Inr (), print_msg (MsgUpsertedNoncum n month_key) st2)))"

fun noncum_loop ::
  "env \<Rightarrow> string list \<Rightarrow> string list \<Rightarrow> state \<Rightarrow> (outcome + unit) \<times> state" where
  "noncum_loop e accts [] st = (Inr (), st)"
| "noncum_loop e accts (month_key # rest) st =
     (case noncum_month e accts month_key st of
        (Inl x, st1) \<Rightarrow> (Inl x, st1)
      | (Inr u, st1) \<Rightarrow> noncum_loop e accts rest st1)"

section \<open>The script\<close>

definition process_cumulative :: "env \<Rightarrow> state \<Rightarrow> (outcome + unit) \<times> state" where
  "process_cumulative e st =
     (if accounts_cum (opening_balance_tbl e) \<noteq> []
      then cum_loop e (accounts_cum (opening_balance_tbl e)) (enumerate 0 MONTHS) st
      else (Inr (), st))"

definition process_noncumulative :: "env \<Rightarrow> state \<Rightarrow> (outcome + unit) \<times> state" where
  "process_noncumulative e st =
     (if accounts_noncum (opening_balance_tbl e) \<noteq> []
      then noncum_loop e (accounts_noncum (opening_balance_tbl e)) MONTHS st
      else (Inr (), st))"

definition script :: "env \<Rightarrow> state \<Rightarrow> outcome \<times> state" where
  "script e st =
     (case check_tables e required_tables st of
        (Inl x, st1) \<Rightarrow> (x, st1)
      | (Inr u, st1) \<Rightarrow>
          (case db_exec e SelectOpeningBalance st1 of
             (False, st2) \<Rightarrow> (Uncaught, st2)
           | (True, st2) \<Rightarrow>
               if accounts_cum (opening_balance_tbl e) = []
                  \<and> accounts_noncum (opening_balance_tbl e) = []
               then (Exit 0, print_msg MsgNoRelevantAccounts st2)
               else
                 (case process_cumulative e
                         (print_msg (MsgProcessingAccounts
                            (length (accounts_cum (opening_balance_tbl e)))
                            (length (accounts_noncum (opening_balance_tbl e)))) st2) of
                    (Inl x, st3) \<Rightarrow> (x, st3)
                  | (Inr u, st3) \<Rightarrow>
                      (case process_noncumulative e st3 of
                         (Inl x, st4) \<Rightarrow> (x, st4)
                       | (Inr u, st4) \<Rightarrow> (Finished, print_msg MsgAllProcessed st4)))))"

text \<open>A run starts with a fresh connection on a database whose \<^verbatim>\<open>monthly_balance\<close> is \<open>mb\<close>.\<close>

definition run :: "env \<Rightarrow> monthly_table \<Rightarrow> outcome \<times> state" where
  "run e mb = script e \<lparr>clock = 0, trace = [], monthly_balance_tbl = mb\<rparr>"

section \<open>Closed forms\<close>

text \<open>
  The row that \<^verbatim>\<open>INSERT ... ON DUPLICATE KEY UPDATE\<close> leaves under a key, from the
  row \<open>old\<close> found there, and the table a whole batch leaves.
\<close>

definition merged_row ::
  "monthly_row option \<Rightarrow> real \<Rightarrow> string option \<Rightarrow> string option \<Rightarrow> monthly_row" where
  "merged_row old bal desc typ =
     (case old of
        None \<Rightarrow> \<lparr>mb_opening_balance = Some bal, mb_description = desc, mb_account_type = typ\<rparr>
      | Some r \<Rightarrow>
          \<lparr>mb_opening_balance = Some bal,
           mb_description = ifnull (nullif_empty (mb_description r)) desc,
           mb_account_type = ifnull (nullif_empty (mb_account_type r)) typ\<rparr>)"

definition batch_table ::
  "ob_row list \<Rightarrow> string list \<Rightarrow> string \<Rightarrow> (string \<Rightarrow> real) \<Rightarrow> monthly_table \<Rightarrow> monthly_table" where
  "batch_table ob_df_all accts month_key delta t =
     (\<lambda>(a, m).
        if m = month_key \<and> a \<in> set accts
        then Some (merged_row (t (a, m)) (get_or_0 (ob_map ob_df_all) a + delta a)
                     (dict_get (ob_desc_map ob_df_all) a) (dict_get (ob_type_map ob_df_all) a))
        else t (a, m))"

text \<open>
  What the voucher query of one month returns for an account, and the total that the
  cumulative loop accumulates for month index \<open>i\<close>.
\<close>

definition month_total :: "env \<Rightarrow> string \<Rightarrow> string \<Rightarrow> real" where
  "month_total e acct m =
     (case parse_month_key m of
        None \<Rightarrow> 0
      | Some (year, month) \<Rightarrow>
          voucher_sum_q (voucher_table e (voucher_table_name m)) acct year month)"

definition cum_total :: "env \<Rightarrow> string \<Rightarrow> nat \<Rightarrow> real" where
  "cum_total e acct i = sum_list (map (month_total e acct) (take (i + 1) MONTHS))"

text \<open>
  The table the cumulative loop leaves after the batches of the (index, month) pairs
  \<open>ims\<close>, and the table the non-cumulative loop leaves after the months \<open>ms\<close>, where
  \<open>failed m\<close> says that the voucher fetch of month \<open>m\<close> raised (its dictionary was empty).
\<close>

definition cum_table ::
  "env \<Rightarrow> string list \<Rightarrow> (nat \<times> string) list \<Rightarrow> monthly_table \<Rightarrow> monthly_table" where
  "cum_table e accts ims t =
     foldl (\<lambda>t (i, m). batch_table (opening_balance_tbl e) accts m (\<lambda>a. cum_total e a i) t) t ims"

definition noncum_delta :: "env \<Rightarrow> (string \<Rightarrow> bool) \<Rightarrow> string \<Rightarrow> string \<Rightarrow> real" where
  "noncum_delta e failed m a = (if failed m then 0 else month_total e a m)"

definition noncum_table ::
  "env \<Rightarrow> string list \<Rightarrow> (string \<Rightarrow> bool) \<Rightarrow> string list \<Rightarrow> monthly_table \<Rightarrow> monthly_table" where
  "noncum_table e accts failed ms t =
     foldl (\<lambda>t m. batch_table (opening_balance_tbl e) accts m (noncum_delta e failed m) t) t ms"

definition final_table :: "env \<Rightarrow> (string \<Rightarrow> bool) \<Rightarrow> monthly_table \<Rightarrow> monthly_table" where
  "final_table e failed mb =
     noncum_table e (accounts_noncum (opening_balance_tbl e)) failed MONTHS
       (cum_table e (accounts_cum (opening_balance_tbl e)) (enumerate 0 MONTHS) mb)"

text \<open>Properties of the trace of a state.\<close>

definition trace_all :: "(event \<Rightarrow> bool) \<Rightarrow> state \<Rightarrow> bool" where
  "trace_all Q st = (\<forall>ev \<in> set (trace st). Q ev)"

definition voucher_error_printed :: "state \<Rightarrow> string \<Rightarrow> bool" where
  "voucher_error_printed st m = (Print (MsgErrorVoucher m) \<in> set (trace st))"

text \<open>
  The statements and printed lines of \<^verbatim>\<open>fetch_historical_for_month\<close> and
  \<^verbatim>\<open>fetch_monthly_for_month\<close>.
\<close>

fun reader_event :: "event \<Rightarrow> bool" where
  "reader_event (Stmt (SelectHistorical s m al) ok) = True"
| "reader_event (Stmt (SelectCurrMonthAugust al) ok) = True"
| "reader_event (Stmt (SelectMonthly m al) ok) = True"
| "reader_event (Print MsgErrorHistorical) = True"
| "reader_event (Print MsgErrorMonthly) = True"
| "reader_event ev = False"

text \<open>
  A statement that raised where nothing catches the exception and goes on: every
  statement but the grouped query of \<^verbatim>\<open>fetch_voucher_amounts_for_month\<close>.
\<close>

fun fatal_failure :: "event \<Rightarrow> bool" where
  "fatal_failure (Stmt (SelectVoucherAmounts tn y m al) False) = False"
| "fatal_failure (Stmt q False) = True"
| "fatal_failure ev = False"

text \<open>The balance stored for an account and a month, if there is one.\<close>

definition stored_balance :: "state \<Rightarrow> string \<Rightarrow> string \<Rightarrow> real option" where
  "stored_balance st a m =
     (case monthly_balance_tbl st (a, m) of None \<Rightarrow> None | Some r \<Rightarrow> mb_opening_balance r)"

text \<open>The rows of a voucher table dated in a given month.\<close>

definition rows_of_month :: "nat \<Rightarrow> nat \<Rightarrow> voucher_row list \<Rightarrow> voucher_row list" where
  "rows_of_month year month tbl =
     filter (\<lambda>r. d_year (v_transaction_date r) = year \<and> d_month (v_transaction_date r) = month) tbl"

text \<open>The voucher table that the queries of the month with index \<open>k\<close> in \<open>MONTHS\<close> read.\<close>

definition table_of_index :: "env \<Rightarrow> nat \<Rightarrow> voucher_row list" where
  "table_of_index e k = (if k < 7 then vouchers_tbl e else vouchers_curr_month_tbl e)"

section \<open>A small database\<close>

text \<open>
  One asset account with a carry-forward voucher beside its January transaction, one
  income account, one account whose type names both groups and one whose type names
  none; no statement raises.
\<close>

definition jan3 :: date where "jan3 = \<lparr>d_year = 2025, d_month = 1, d_day = 3\<rparr>"
definition feb3 :: date where "feb3 = \<lparr>d_year = 2025, d_month = 2, d_day = 3\<rparr>"

definition example_vouchers :: "voucher_row list" where
  "example_vouchers =
     [\<lparr>v_account_code = ''1000'', v_transaction_date = jan3,
       v_amount_original = Some 50, v_voucher = Some ''JV''\<rparr>,
      \<lparr>v_account_code = ''1000'', v_transaction_date = jan3,
       v_amount_original = Some 9999, v_voucher = Some ''BRTFWD''\<rparr>,
      \<lparr>v_account_code = ''1000'', v_transaction_date = feb3,
       v_amount_original = Some (- 20), v_voucher = Some ''JV''\<rparr>,
      \<lparr>v_account_code = ''4000'', v_transaction_date = jan3,
       v_amount_original = Some 7, v_voucher = Some ''JV''\<rparr>,
      \<lparr>v_account_code = ''4000'', v_transaction_date = feb3,
       v_amount_original = Some 5, v_voucher = Some ''JV''\<rparr>,
      \<lparr>v_account_code = ''5000'', v_transaction_date = jan3,
       v_amount_original = Some 10, v_voucher = Some ''JV''\<rparr>,
      \<lparr>v_account_code = ''5000'', v_transaction_date = feb3,
       v_amount_original = Some 4, v_voucher = Some ''JV''\<rparr>]"

definition example_opening_balance :: "ob_row list" where
  "example_opening_balance =
     [\<lparr>ob_account = ''1000'', ob_opening_balance = Some 1000,
       ob_account_type = Some ''Asset'', ob_description = Some ''Cash''\<rparr>,
      \<lparr>ob_account = ''4000'', ob_opening_balance = Some 20,
       ob_account_type = Some ''Income'', ob_description = Some ''Sales''\<rparr>,
      \<lparr>ob_account = ''5000'', ob_opening_balance = Some 100,
       ob_account_type = Some ''Asset Income'', ob_description = None\<rparr>,
      \<lparr>ob_account = ''9000'', ob_opening_balance = Some 1,
       ob_account_type = Some ''Equity'', ob_description = None\<rparr>]"

definition example_env :: env where
  "example_env =
     \<lparr>fails = (\<lambda>n. False),
      tables = [''opening_balance'', ''historical_variance'', ''monthly_balance''],
      opening_balance_tbl = example_opening_balance,
      historical_variance_tbl =
        [\<lparr>h_account = ''1000'', h_month_key = ''2025-01'',
          h_smoothened_amount = Some 500, h_journal_amount = Some 300\<rparr>],
      vouchers_tbl = example_vouchers,
      vouchers_curr_month_tbl = []\<rparr>"

text \<open>A \<^verbatim>\<open>monthly_balance\<close> table left by some earlier run, and a fresh connection on it.\<close>

definition example_monthly :: monthly_table where
  "example_monthly =
     (Map.empty((''1000'', ''2025-01'') \<mapsto>
        \<lparr>mb_opening_balance = Some 77, mb_description = Some ''Petty cash'',
         mb_account_type = Some []\<rparr>))
       ((''4000'', ''2025-03'') \<mapsto>
        \<lparr>mb_opening_balance = None, mb_description = None,
         mb_account_type = Some ''Revenue''\<rparr>)"

definition example_state :: state where
  "example_state = \<lparr>clock = 0, trace = [], monthly_balance_tbl = example_monthly\<rparr>"

text \<open>The same database with one more January transaction of the income account.\<close>

definition example_env_more_january :: env where
  "example_env_more_january =
     example_env\<lparr>vouchers_tbl :=
       \<lparr>v_account_code = ''4000'', v_transaction_date = jan3,
        v_amount_original = Some 1000, v_voucher = Some ''JV''\<rparr> # example_vouchers\<rparr>"

text \<open>
  A database with one account in each group, in which exactly the statement number \<open>c\<close>
  raises.
\<close>

definition small_opening_balance :: "ob_row list" where
  "small_opening_balance =
     [\<lparr>ob_account = ''1000'', ob_opening_balance = Some 1000,
       ob_account_type = Some ''Asset'', ob_description = Some ''Cash''\<rparr>,
      \<lparr>ob_account = ''4000'', ob_opening_balance = Some 0,
       ob_account_type = Some ''Income'', ob_description = Some ''Sales''\<rparr>]"

definition failing_env :: "nat \<Rightarrow> env" where
  "failing_env c =
     example_env\<lparr>fails := (\<lambda>n. n = c), opening_balance_tbl := small_opening_balance\<rparr>"

text \<open>
  A database with the income account alone, in which the first voucher fetch of the
  run (statement number 4, after the three table checks and the opening balances) raises.
\<close>

definition income_only_env :: env where
  "income_only_env =
     example_env\<lparr>fails := (\<lambda>n. n = 4),
       opening_balance_tbl :=
         [\<lparr>ob_account = ''4000'', ob_opening_balance = Some 3,
           ob_account_type = Some ''Income'', ob_description = Some ''Sales''\<rparr>]\<rparr>"

text \<open>
  The monthly sum in the words of the specification: the amounts (NULL as 0) of the
  transactions of an account dated in a month, those tagged with one of the three
  marker vouchers left out. A transaction with no voucher tag is not marker-tagged and
  counts here.
\<close>

definition marker_tagged :: "voucher_row \<Rightarrow> bool" where
  "marker_tagged r = (case v_voucher r of None \<Rightarrow> False | Some v \<Rightarrow> v \<in> set marker_vouchers)"

definition month_activity :: "voucher_row list \<Rightarrow> string \<Rightarrow> nat \<Rightarrow> nat \<Rightarrow> real" where
  "month_activity tbl acct year month =
     sum_list (map (\<lambda>r. coalesce0 (v_amount_original r))
       (filter (\<lambda>r. v_account_code r = acct
                    \<and> d_year (v_transaction_date r) = year
                    \<and> d_month (v_transaction_date r) = month
                    \<and> \<not> marker_tagged r) tbl))"

text \<open>
  The opening balance, description and account type of an account in the words of the
  specification: the columns of the record of the account in the opening-balance
  snapshot, a NULL opening balance read as 0. Should the import have appended several
  records of one account, the last one counts.
\<close>

definition snapshot_row :: "ob_row list \<Rightarrow> string \<Rightarrow> ob_row option" where
  "snapshot_row ob_df_all acct = find (\<lambda>r. ob_account r = acct) (rev ob_df_all)"

definition opening_balance_of :: "ob_row list \<Rightarrow> string \<Rightarrow> real" where
  "opening_balance_of ob_df_all acct =
     (case snapshot_row ob_df_all acct of
        None \<Rightarrow> 0
      | Some r \<Rightarrow> (case ob_opening_balance r of None \<Rightarrow> 0 | Some x \<Rightarrow> x))"

definition description_of :: "ob_row list \<Rightarrow> string \<Rightarrow> string option" where
  "description_of ob_df_all acct =
     (case snapshot_row ob_df_all acct of None \<Rightarrow> None | Some r \<Rightarrow> ob_description r)"

definition account_type_of :: "ob_row list \<Rightarrow> string \<Rightarrow> string option" where
  "account_type_of ob_df_all acct =
     (case snapshot_row ob_df_all acct of None \<Rightarrow> None | Some r \<Rightarrow> ob_account_type r)"

text \<open>
  The metadata rule of the balance writer in the words of the specification: the
  incoming value is stored when there is no row, or the stored value is NULL or the
  empty string; otherwise the stored value stays. \<open>stored\<close> is \<open>None\<close> when the key has
  no row and \<open>Some v\<close> when its row holds \<open>v\<close>.
\<close>

definition kept_or_filled :: "string option option \<Rightarrow> string option \<Rightarrow> string option" where
  "kept_or_filled stored incoming =
     (case stored of
        None \<Rightarrow> incoming
      | Some None \<Rightarrow> incoming
      | Some (Some s) \<Rightarrow> if s = [] then incoming else Some s)"

text \<open>The unique key of \<^verbatim>\<open>monthly_balance\<close> that a parameter dictionary addresses.\<close>

definition row_key :: "upsert_row \<Rightarrow> string \<times> string" where
  "row_key r = (r_account r, r_month_key r)"

text \<open>
  The small database with one more January transaction of the asset account, of
  amount 100, that carries no voucher tag.
\<close>

definition example_env_untagged :: env where
  "example_env_untagged =
     example_env\<lparr>vouchers_tbl :=
       \<lparr>v_account_code = ''1000'', v_transaction_date = jan3,
        v_amount_original = Some 100, v_voucher = None\<rparr> # example_vouchers\<rparr>"

section \<open>Batches and the monthly table\<close>

lemma insert_on_duplicate_eq:
  "insert_on_duplicate t r =
     t((r_account r, r_month_key r) \<mapsto>
        merged_row (t (r_account r, r_month_key r)) (r_balance r) (r_description r) (r_account_type r))"
  by (simp add: insert_on_duplicate_def merged_row_def split: option.splits)

lemma merged_row_twice:
  "merged_row (Some (merged_row old b1 d ty)) b2 d ty = merged_row old b2 d ty"
  by (auto simp: merged_row_def ifnull_def nullif_empty_def split: option.splits)

lemma batch_table_Nil: "batch_table ob [] mk delta t = t"
  by (auto simp: batch_table_def)

lemma foldl_make_rows:
  "foldl insert_on_duplicate t (make_rows ob accts mk vm) = batch_table ob accts mk (get_or_0 vm) t"
proof (induction accts arbitrary: t)
  case Nil
  show ?case by (simp add: make_rows_def batch_table_Nil)
next
  case (Cons a accts)
  have "foldl insert_on_duplicate t (make_rows ob (a # accts) mk vm)
        = foldl insert_on_duplicate
            (insert_on_duplicate t
               \<lparr>r_account = a, r_month_key = mk,
                r_balance = get_or_0 (ob_map ob) a + get_or_0 vm a,
                r_description = dict_get (ob_desc_map ob) a,
                r_account_type = dict_get (ob_type_map ob) a\<rparr>)
            (make_rows ob accts mk vm)"
    by (simp add: make_rows_def)
  also have "\<dots> = batch_table ob accts mk (get_or_0 vm)
       (insert_on_duplicate t
               \<lparr>r_account = a, r_month_key = mk,
                r_balance = get_or_0 (ob_map ob) a + get_or_0 vm a,
                r_description = dict_get (ob_desc_map ob) a,
                r_account_type = dict_get (ob_type_map ob) a\<rparr>)"
    by (rule Cons.IH)
  also have "\<dots> = batch_table ob (a # accts) mk (get_or_0 vm) t"
    by (rule ext) (auto simp: batch_table_def insert_on_duplicate_eq merged_row_twice)
  finally show ?case .
qed

lemma batch_table_cong:
  "(\<And>a. a \<in> set accts \<Longrightarrow> d1 a = d2 a) \<Longrightarrow> batch_table ob accts mk d1 t = batch_table ob accts mk d2 t"
  by (rule ext) (auto simp: batch_table_def)

lemma db_exec_monthly [simp]: "monthly_balance_tbl (snd (db_exec e q st)) = monthly_balance_tbl st"
  by (simp add: db_exec_def)

lemma print_msg_monthly [simp]: "monthly_balance_tbl (print_msg m st) = monthly_balance_tbl st"
  by (simp add: print_msg_def)

lemma sum_months_Inr:
  "sum_months e acct ms t st = (Inr v, st') \<Longrightarrow>
     v = t + sum_list (map (month_total e acct) ms) \<and> monthly_balance_tbl st' = monthly_balance_tbl st"
proof (induction ms arbitrary: t st)
  case Nil
  then show ?case by simp
next
  case (Cons m ms)
  show ?case using Cons.prems
    by (auto simp: month_total_def db_exec_def Let_def dest!: Cons.IH split: option.splits prod.splits bool.splits if_splits)
qed

lemma sum_months_monthly:
  "monthly_balance_tbl (snd (sum_months e acct ms t st)) = monthly_balance_tbl st"
proof (induction ms arbitrary: t st)
  case Nil
  then show ?case by simp
next
  case (Cons m ms)
  then show ?case
    by (auto simp: db_exec_def Let_def split: option.splits prod.splits bool.splits if_splits)
qed


lemma cumulative_voucher_map_Inr:
  "cumulative_voucher_map e ms accts cvm st = (Inr cvm', st') \<Longrightarrow>
     cvm' = (\<lambda>a. if a \<in> set accts then Some (sum_list (map (month_total e a) ms)) else cvm a)
     \<and> monthly_balance_tbl st' = monthly_balance_tbl st"
proof (induction accts arbitrary: cvm st)
  case Nil
  then show ?case by simp
next
  case (Cons acct accts)
  from Cons.prems obtain v st1 where
    s: "sum_months e acct ms 0 st = (Inr v, st1)" and
    r: "cumulative_voucher_map e ms accts (cvm(acct \<mapsto> v)) st1 = (Inr cvm', st')"
    by (auto split: prod.splits sum.splits)
  from sum_months_Inr[OF s] have v: "v = sum_list (map (month_total e acct) ms)"
    and m1: "monthly_balance_tbl st1 = monthly_balance_tbl st" by simp_all
  from Cons.IH[OF r] v m1 show ?case by auto
qed

lemma cumulative_voucher_map_monthly:
  "monthly_balance_tbl (snd (cumulative_voucher_map e ms accts cvm st)) = monthly_balance_tbl st"
proof (induction accts arbitrary: cvm st)
  case Nil
  then show ?case by simp
next
  case (Cons acct accts)
  show ?case
  proof (cases "sum_months e acct ms 0 st")
    case (Pair r st1)
    have "monthly_balance_tbl st1 = monthly_balance_tbl st"
      using sum_months_monthly[of e acct ms 0 st] Pair by simp
    then show ?thesis using Pair Cons.IH by (cases r) simp_all
  qed
qed

lemma exec_inserts_True:
  "exec_inserts e rows st = (True, st') \<Longrightarrow>
     monthly_balance_tbl st' = foldl insert_on_duplicate (monthly_balance_tbl st) rows"
proof (induction rows arbitrary: st)
  case Nil
  then show ?case by simp
next
  case (Cons r rows)
  show ?case using Cons.prems
    by (auto simp: db_exec_def dest!: Cons.IH split: prod.splits bool.splits if_splits)
qed

lemma upsert_except_result:
  "upsert_except e saved st = (r, st') \<Longrightarrow>
     monthly_balance_tbl st' = saved \<and> (r = Inl (Exit 5) \<or> r = Inl Uncaught)"
  by (auto simp: upsert_except_def db_exec_def print_msg_def split: prod.splits bool.splits if_splits)

lemma upsert_monthly_rows_Inr:
  "upsert_monthly_rows e rows st = (Inr n, st') \<Longrightarrow>
     n = length rows
     \<and> monthly_balance_tbl st' = foldl insert_on_duplicate (monthly_balance_tbl st) rows"
  by (auto simp: upsert_monthly_rows_def db_exec_def
           dest!: upsert_except_result exec_inserts_True
           split: prod.splits bool.splits if_splits)

lemma upsert_monthly_rows_Inl:
  "upsert_monthly_rows e rows st = (Inl x, st') \<Longrightarrow>
     monthly_balance_tbl st' = monthly_balance_tbl st \<and> (x = Exit 5 \<or> x = Uncaught)"
  by (auto simp: upsert_monthly_rows_def
           dest!: upsert_except_result
           split: prod.splits bool.splits if_splits)

lemma cum_month_Inr:
  assumes "cum_month e accts i mk st = (Inr u, st')"
  shows "monthly_balance_tbl st' =
           batch_table (opening_balance_tbl e) accts mk (\<lambda>a. cum_total e a i) (monthly_balance_tbl st)"
proof -
  from assms obtain cvm st1 n st2 where
    c: "cumulative_voucher_map e (take (i + 1) MONTHS) accts Map.empty
          (print_msg (MsgProcessingCum mk) st) = (Inr cvm, st1)" and
    u: "upsert_monthly_rows e (make_rows (opening_balance_tbl e) accts mk cvm) st1 = (Inr n, st2)" and
    f: "st' = print_msg (MsgUpsertedCum n mk) st2"
    by (auto simp: cum_month_def split: prod.splits sum.splits)
  from cumulative_voucher_map_Inr[OF c] have
    cvm: "cvm = (\<lambda>a. if a \<in> set accts
                      then Some (sum_list (map (month_total e a) (take (i + 1) MONTHS))) else None)"
    and m1: "monthly_balance_tbl st1 = monthly_balance_tbl st" by simp_all
  from upsert_monthly_rows_Inr[OF u] have
    "monthly_balance_tbl st2 =
       batch_table (opening_balance_tbl e) accts mk (get_or_0 cvm) (monthly_balance_tbl st1)"
    by (simp add: foldl_make_rows)
  also have "\<dots> = batch_table (opening_balance_tbl e) accts mk (\<lambda>a. cum_total e a i)
                     (monthly_balance_tbl st)"
    unfolding m1 by (rule batch_table_cong) (simp add: cvm get_or_0_def cum_total_def)
  finally show ?thesis using f by simp
qed

lemma cum_month_Inl:
  assumes "cum_month e accts i mk st = (Inl x, st')"
  shows "monthly_balance_tbl st' = monthly_balance_tbl st"
proof -
  let ?c = "cumulative_voucher_map e (take (i + 1) MONTHS) accts Map.empty
              (print_msg (MsgProcessingCum mk) st)"
  have m1: "monthly_balance_tbl (snd ?c) = monthly_balance_tbl st"
    by (simp add: cumulative_voucher_map_monthly)
  show ?thesis
  proof (cases ?c)
    case (Pair r st1)
    show ?thesis
    proof (cases r)
      case (Inl y)
      with Pair assms m1 show ?thesis by (simp add: cum_month_def)
    next
      case (Inr cvm)
      with Pair assms m1 show ?thesis
        by (auto simp: cum_month_def dest!: upsert_monthly_rows_Inl split: prod.splits sum.splits)
    qed
  qed
qed

section \<open>The trace\<close>

lemma trace_all_db_exec:
  "trace_all Q st \<Longrightarrow> Q (Stmt q (\<not> fails e (clock st))) \<Longrightarrow> trace_all Q (snd (db_exec e q st))"
  by (simp add: trace_all_def db_exec_def)

lemma trace_all_print_msg:
  "trace_all Q st \<Longrightarrow> Q (Print m) \<Longrightarrow> trace_all Q (print_msg m st)"
  by (simp add: trace_all_def print_msg_def)

lemma trace_all_monthly_update [simp]:
  "trace_all Q (st\<lparr>monthly_balance_tbl := t\<rparr>) = trace_all Q st"
  by (simp add: trace_all_def)

lemma check_tables_trace:
  "trace_all Q st \<Longrightarrow> (\<And>t ok. Q (Stmt (CountTable t) ok)) \<Longrightarrow> (\<And>t. Q (Print (MsgTableNotFound t)))
   \<Longrightarrow> trace_all Q (snd (check_tables e ts st))"
proof (induction ts arbitrary: st)
  case Nil
  then show ?case by simp
next
  case (Cons t ts)
  have "trace_all Q (snd (db_exec e (CountTable t) st))"
    using Cons.prems by (intro trace_all_db_exec) auto
  then show ?case using Cons.prems(2,3) Cons.IH[of "snd (db_exec e (CountTable t) st)"]
    by (auto simp: case_prod_beta bool.case_eq_if intro!: trace_all_print_msg)
qed

lemma sum_months_trace:
  "trace_all Q st \<Longrightarrow> (\<And>tn a y m ok. Q (Stmt (SelectVoucherSum tn a y m) ok))
   \<Longrightarrow> trace_all Q (snd (sum_months e acct ms t st))"
proof (induction ms arbitrary: t st)
  case Nil
  then show ?case by simp
next
  case (Cons m ms)
  show ?case
  proof (cases "parse_month_key m")
    case None
    then show ?thesis using Cons.prems by simp
  next
    case (Some ym)
    obtain y mo where ym: "ym = (y, mo)" by (cases ym)
    let ?st1 = "snd (db_exec e (SelectVoucherSum (voucher_table_name m) acct y mo) st)"
    have "trace_all Q ?st1" using Cons.prems by (intro trace_all_db_exec) auto
    then show ?thesis using Some ym Cons.prems(2) Cons.IH[of ?st1]
      by (auto simp: case_prod_beta bool.case_eq_if Let_def)
  qed
qed

lemma cumulative_voucher_map_trace:
  "trace_all Q st \<Longrightarrow> (\<And>tn a y m ok. Q (Stmt (SelectVoucherSum tn a y m) ok))
   \<Longrightarrow> trace_all Q (snd (cumulative_voucher_map e ms accts cvm st))"
proof (induction accts arbitrary: cvm st)
  case Nil
  then show ?case by simp
next
  case (Cons acct accts)
  have "trace_all Q (snd (sum_months e acct ms 0 st))"
    using Cons.prems by (intro sum_months_trace) auto
  then show ?case using Cons.prems(2) Cons.IH[of "snd (sum_months e acct ms 0 st)"]
    by (auto simp: case_prod_beta sum.case_eq_if)
qed

lemma exec_inserts_trace:
  "trace_all Q st \<Longrightarrow> (\<And>r ok. Q (Stmt (InsertMonthly r) ok))
   \<Longrightarrow> trace_all Q (snd (exec_inserts e rows st))"
proof (induction rows arbitrary: st)
  case Nil
  then show ?case by simp
next
  case (Cons r rows)
  let ?st1 = "snd (db_exec e (InsertMonthly r) st)"
  have "trace_all Q ?st1" using Cons.prems by (intro trace_all_db_exec) auto
  then have "trace_all Q (?st1\<lparr>monthly_balance_tbl := insert_on_duplicate (monthly_balance_tbl ?st1) r\<rparr>)"
    by simp
  then show ?case using Cons.prems(2) Cons.IH
    by (auto simp: case_prod_beta bool.case_eq_if)
qed

lemma upsert_except_trace:
  "trace_all Q st \<Longrightarrow> (\<And>ok. Q (Stmt Rollback ok)) \<Longrightarrow> Q (Print MsgErrorUpsert)
   \<Longrightarrow> trace_all Q (snd (upsert_except e saved st))"
  by (auto simp: upsert_except_def case_prod_beta bool.case_eq_if
           intro!: trace_all_print_msg trace_all_db_exec)

lemma upsert_monthly_rows_trace:
  assumes "trace_all Q st"
    and "\<And>ok. Q (Stmt StartTransaction ok)" and "\<And>r ok. Q (Stmt (InsertMonthly r) ok)"
    and "\<And>ok. Q (Stmt Commit ok)" and "\<And>ok. Q (Stmt Rollback ok)" and "Q (Print MsgErrorUpsert)"
  shows "trace_all Q (snd (upsert_monthly_rows e rows st))"
proof -
  let ?st1 = "snd (db_exec e StartTransaction st)"
  let ?st2 = "snd (exec_inserts e rows ?st1)"
  let ?st3 = "snd (db_exec e Commit ?st2)"
  have 1: "trace_all Q ?st1" using assms by (intro trace_all_db_exec) auto
  have 2: "trace_all Q ?st2" using 1 assms by (intro exec_inserts_trace) auto
  have 3: "trace_all Q ?st3" using 2 assms by (intro trace_all_db_exec) auto
  have x: "\<And>s. trace_all Q s \<Longrightarrow> trace_all Q (snd (upsert_except e (monthly_balance_tbl st) s))"
    using assms by (intro upsert_except_trace) auto
  show ?thesis using assms(1) 1 2 3 x
    by (auto simp: upsert_monthly_rows_def case_prod_beta bool.case_eq_if)
qed

lemma cum_month_trace:
  assumes "trace_all Q st"
    and "\<And>tn a y m ok. Q (Stmt (SelectVoucherSum tn a y m) ok)"
    and "\<And>ok. Q (Stmt StartTransaction ok)" and "\<And>r ok. Q (Stmt (InsertMonthly r) ok)"
    and "\<And>ok. Q (Stmt Commit ok)" and "\<And>ok. Q (Stmt Rollback ok)" and "Q (Print MsgErrorUpsert)"
    and "Q (Print (MsgProcessingCum mk))" and "\<And>n. Q (Print (MsgUpsertedCum n mk))"
  shows "trace_all Q (snd (cum_month e accts i mk st))"
proof -
  let ?c = "cumulative_voucher_map e (take (i + 1) MONTHS) accts Map.empty
              (print_msg (MsgProcessingCum mk) st)"
  have 1: "trace_all Q (snd ?c)"
    using assms by (intro cumulative_voucher_map_trace trace_all_print_msg) auto
  have 2: "\<And>rows. trace_all Q (snd (upsert_monthly_rows e rows (snd ?c)))"
    using 1 assms by (intro upsert_monthly_rows_trace) auto
  show ?thesis using 1 2 assms(9)
    by (auto simp: cum_month_def case_prod_beta sum.case_eq_if intro!: trace_all_print_msg)
qed

lemma cum_loop_trace:
  assumes "trace_all Q st"
    and "\<And>tn a y m ok. Q (Stmt (SelectVoucherSum tn a y m) ok)"
    and "\<And>ok. Q (Stmt StartTransaction ok)" and "\<And>r ok. Q (Stmt (InsertMonthly r) ok)"
    and "\<And>ok. Q (Stmt Commit ok)" and "\<And>ok. Q (Stmt Rollback ok)" and "Q (Print MsgErrorUpsert)"
    and "\<And>mk. Q (Print (MsgProcessingCum mk))" and "\<And>n mk. Q (Print (MsgUpsertedCum n mk))"
  shows "trace_all Q (snd (cum_loop e accts ims st))"
  using assms(1)
proof (induction ims arbitrary: st)
  case Nil
  then show ?case by simp
next
  case (Cons im ims)
  obtain i mk where im: "im = (i, mk)" by (cases im)
  have 1: "trace_all Q (snd (cum_month e accts i mk st))"
    using Cons.prems assms(2-) by (intro cum_month_trace) auto
  show ?case using 1 Cons.IH[OF 1] im
    by (auto simp: case_prod_beta sum.case_eq_if)
qed

lemma fetch_voucher_amounts_for_month_trace:
  assumes "trace_all Q st"
    and "\<And>tn y m al ok. Q (Stmt (SelectVoucherAmounts tn y m al) ok)"
    and "parse_month_key mk = None \<or> (\<exists>n. fails e n) \<Longrightarrow> Q (Print (MsgErrorVoucher mk))"
  shows "trace_all Q (snd (fetch_voucher_amounts_for_month e mk accts st))"
  using assms
  by (auto simp: fetch_voucher_amounts_for_month_def Let_def db_exec_def trace_all_def
                 print_msg_def split: option.splits bool.splits if_splits)

lemma noncum_month_trace:
  assumes "trace_all Q st"
    and "\<And>tn y m al ok. Q (Stmt (SelectVoucherAmounts tn y m al) ok)"
    and "parse_month_key mk = None \<or> (\<exists>n. fails e n) \<Longrightarrow> Q (Print (MsgErrorVoucher mk))"
    and "\<And>ok. Q (Stmt StartTransaction ok)" and "\<And>r ok. Q (Stmt (InsertMonthly r) ok)"
    and "\<And>ok. Q (Stmt Commit ok)" and "\<And>ok. Q (Stmt Rollback ok)" and "Q (Print MsgErrorUpsert)"
    and "Q (Print (MsgProcessingNoncum mk))" and "\<And>n. Q (Print (MsgUpsertedNoncum n mk))"
  shows "trace_all Q (snd (noncum_month e accts mk st))"
proof -
  let ?f = "fetch_voucher_amounts_for_month e mk accts (print_msg (MsgProcessingNoncum mk) st)"
  have 1: "trace_all Q (snd ?f)"
    using assms by (intro fetch_voucher_amounts_for_month_trace trace_all_print_msg) auto
  have 2: "\<And>rows. trace_all Q (snd (upsert_monthly_rows e rows (snd ?f)))"
    using 1 assms by (intro upsert_monthly_rows_trace) auto
  show ?thesis using 1 2 assms(10)
    by (auto simp: noncum_month_def case_prod_beta sum.case_eq_if intro!: trace_all_print_msg)
qed

lemma noncum_loop_trace:
  assumes "trace_all Q st"
    and "\<And>tn y m al ok. Q (Stmt (SelectVoucherAmounts tn y m al) ok)"
    and "\<And>mk. mk \<in> set ms \<Longrightarrow> parse_month_key mk = None \<or> (\<exists>n. fails e n)
           \<Longrightarrow> Q (Print (MsgErrorVoucher mk))"
    and "\<And>ok. Q (Stmt StartTransaction ok)" and "\<And>r ok. Q (Stmt (InsertMonthly r) ok)"
    and "\<And>ok. Q (Stmt Commit ok)" and "\<And>ok. Q (Stmt Rollback ok)" and "Q (Print MsgErrorUpsert)"
    and "\<And>mk. Q (Print (MsgProcessingNoncum mk))" and "\<And>n mk. Q (Print (MsgUpsertedNoncum n mk))"
  shows "trace_all Q (snd (noncum_loop e accts ms st))"
  using assms(1,3)
proof (induction ms arbitrary: st)
  case Nil
  then show ?case by simp
next
  case (Cons mk ms)
  have 1: "trace_all Q (snd (noncum_month e accts mk st))"
    using Cons.prems assms(2,4-) by (intro noncum_month_trace) auto
  have 2: "trace_all Q (snd (noncum_loop e accts ms (snd (noncum_month e accts mk st))))"
    using 1 Cons.prems(2) by (intro Cons.IH) auto
  show ?case using 1 2
    by (auto simp: case_prod_beta sum.case_eq_if)
qed

section \<open>The trace only grows\<close>

lemma db_exec_mono: "set (trace st) \<subseteq> set (trace (snd (db_exec e q st)))"
  by (auto simp: db_exec_def)

lemma print_msg_mono: "set (trace st) \<subseteq> set (trace (print_msg m st))"
  by (auto simp: print_msg_def)

lemma exec_inserts_mono: "set (trace st) \<subseteq> set (trace (snd (exec_inserts e rows st)))"
proof (induction rows arbitrary: st)
  case Nil
  then show ?case by simp
next
  case (Cons r rows)
  let ?st1 = "snd (db_exec e (InsertMonthly r) st)"
  have "set (trace st) \<subseteq> set (trace ?st1)" by (rule db_exec_mono)
  moreover have "set (trace ?st1) \<subseteq> set (trace (snd (exec_inserts e rows
      (?st1\<lparr>monthly_balance_tbl := insert_on_duplicate (monthly_balance_tbl ?st1) r\<rparr>))))"
    using Cons.IH[of "?st1\<lparr>monthly_balance_tbl := insert_on_duplicate (monthly_balance_tbl ?st1) r\<rparr>"]
    by simp
  ultimately show ?case
    by (auto simp: case_prod_beta bool.case_eq_if)
qed

lemma upsert_except_mono: "set (trace st) \<subseteq> set (trace (snd (upsert_except e saved st)))"
  by (auto simp: upsert_except_def db_exec_def print_msg_def split: bool.splits)

lemma upsert_monthly_rows_mono:
  "set (trace st) \<subseteq> set (trace (snd (upsert_monthly_rows e rows st)))"
proof -
  let ?st1 = "snd (db_exec e StartTransaction st)"
  let ?st2 = "snd (exec_inserts e rows ?st1)"
  let ?st3 = "snd (db_exec e Commit ?st2)"
  have 1: "set (trace st) \<subseteq> set (trace ?st1)" by (rule db_exec_mono)
  have 2: "set (trace ?st1) \<subseteq> set (trace ?st2)" by (rule exec_inserts_mono)
  have 3: "set (trace ?st2) \<subseteq> set (trace ?st3)" by (rule db_exec_mono)
  have x: "\<And>s. set (trace s) \<subseteq> set (trace (snd (upsert_except e (monthly_balance_tbl st) s)))"
    by (rule upsert_except_mono)
  have a1: "set (trace st) \<subseteq> set (trace (snd (upsert_except e (monthly_balance_tbl st) ?st1)))"
    using 1 x[of ?st1] by blast
  have a2: "set (trace st) \<subseteq> set (trace (snd (upsert_except e (monthly_balance_tbl st) ?st2)))"
    using 1 2 x[of ?st2] by blast
  have a3: "set (trace st) \<subseteq> set (trace (snd (upsert_except e (monthly_balance_tbl st) ?st3)))"
    using 1 2 3 x[of ?st3] by blast
  have a4: "set (trace st) \<subseteq> set (trace ?st3)"
    using 1 2 3 by blast
  show ?thesis using a1 a2 a3 a4
    by (simp add: upsert_monthly_rows_def case_prod_beta bool.case_eq_if)
qed

lemma get_or_0_voucher_amounts_q:
  "a \<in> set accts \<Longrightarrow> get_or_0 (voucher_amounts_q tbl y mo accts) a = voucher_sum_q tbl a y mo"
  by (auto simp: get_or_0_def voucher_amounts_q_def voucher_sum_q_def sql_sum_def coalesce0_def
        list_ex_iff filter_empty_conv)

lemma fetch_voucher_amounts_for_month_result:
  assumes "fetch_voucher_amounts_for_month e mk accts s = (vm, s1)"
  shows "monthly_balance_tbl s1 = monthly_balance_tbl s"
    and "set (trace s) \<subseteq> set (trace s1)"
    and "(vm = Map.empty \<and> voucher_error_printed s1 mk)
         \<or> ((\<forall>a\<in>set accts. get_or_0 vm a = month_total e a mk)
            \<and> voucher_error_printed s1 mk = voucher_error_printed s mk)"
  using assms
  by (auto simp: fetch_voucher_amounts_for_month_def db_exec_def print_msg_def Let_def
        voucher_error_printed_def month_total_def get_or_0_voucher_amounts_q
        split: option.splits prod.splits bool.splits if_splits)

lemma noncum_month_Inr:
  assumes "noncum_month e accts mk st = (Inr u, st')" and "\<not> voucher_error_printed st mk"
  shows "monthly_balance_tbl st' =
           batch_table (opening_balance_tbl e) accts mk
             (noncum_delta e (voucher_error_printed st') mk) (monthly_balance_tbl st)"
proof -
  let ?st0 = "print_msg (MsgProcessingNoncum mk) st"
  from assms(1) obtain vm st1 n st2 where
    f: "fetch_voucher_amounts_for_month e mk accts ?st0 = (vm, st1)" and
    u: "upsert_monthly_rows e (make_rows (opening_balance_tbl e) accts mk vm) st1 = (Inr n, st2)" and
    s: "st' = print_msg (MsgUpsertedNoncum n mk) st2"
    by (auto simp: noncum_month_def split: prod.splits sum.splits)
  note fr = fetch_voucher_amounts_for_month_result[OF f]
  have m2: "monthly_balance_tbl st' =
        batch_table (opening_balance_tbl e) accts mk (get_or_0 vm) (monthly_balance_tbl st)"
    using upsert_monthly_rows_Inr[OF u] fr(1) s by (simp add: foldl_make_rows)
  have mono: "set (trace st1) \<subseteq> set (trace st')"
    using upsert_monthly_rows_mono[of st1 e "make_rows (opening_balance_tbl e) accts mk vm"] u s
    by (auto simp: print_msg_def)
  have keep: "\<not> voucher_error_printed st1 mk \<Longrightarrow> \<not> voucher_error_printed st' mk"
  proof -
    assume "\<not> voucher_error_printed st1 mk"
    then have "trace_all (\<lambda>ev. ev \<noteq> Print (MsgErrorVoucher mk)) st1"
      by (auto simp: trace_all_def voucher_error_printed_def)
    then have "trace_all (\<lambda>ev. ev \<noteq> Print (MsgErrorVoucher mk))
                 (snd (upsert_monthly_rows e (make_rows (opening_balance_tbl e) accts mk vm) st1))"
      by (intro upsert_monthly_rows_trace) auto
    then show ?thesis using u s
      by (auto simp: trace_all_def voucher_error_printed_def print_msg_def)
  qed
  from fr(3) show ?thesis
  proof
    assume a: "vm = Map.empty \<and> voucher_error_printed st1 mk"
    then have "voucher_error_printed st' mk"
      using mono by (auto simp: voucher_error_printed_def)
    then show ?thesis unfolding m2 using a
      by (intro batch_table_cong) (simp add: noncum_delta_def get_or_0_def)
  next
    assume a: "(\<forall>a\<in>set accts. get_or_0 vm a = month_total e a mk)
            \<and> voucher_error_printed st1 mk = voucher_error_printed ?st0 mk"
    have "\<not> voucher_error_printed ?st0 mk"
      using assms(2) by (simp add: voucher_error_printed_def print_msg_def)
    with a keep have "\<not> voucher_error_printed st' mk" by simp
    then show ?thesis unfolding m2 using a
      by (intro batch_table_cong) (simp add: noncum_delta_def)
  qed
qed

lemma noncum_month_Inl:
  assumes "noncum_month e accts mk st = (Inl x, st')"
  shows "monthly_balance_tbl st' = monthly_balance_tbl st \<and> (x = Exit 5 \<or> x = Uncaught)"
proof -
  let ?st0 = "print_msg (MsgProcessingNoncum mk) st"
  from assms(1) obtain vm st1 where
    f: "fetch_voucher_amounts_for_month e mk accts ?st0 = (vm, st1)" and
    u: "upsert_monthly_rows e (make_rows (opening_balance_tbl e) accts mk vm) st1 = (Inl x, st')"
    by (auto simp: noncum_month_def split: prod.splits sum.splits)
  from fetch_voucher_amounts_for_month_result(1)[OF f] upsert_monthly_rows_Inl[OF u]
  show ?thesis by simp
qed

lemma noncum_month_mono: "set (trace st) \<subseteq> set (trace (snd (noncum_month e accts mk st)))"
proof -
  let ?st0 = "print_msg (MsgProcessingNoncum mk) st"
  obtain vm st1 where f: "fetch_voucher_amounts_for_month e mk accts ?st0 = (vm, st1)"
    by (cases "fetch_voucher_amounts_for_month e mk accts ?st0")
  have 1: "set (trace st) \<subseteq> set (trace st1)"
    using fetch_voucher_amounts_for_month_result(2)[OF f] by (auto simp: print_msg_def)
  have 2: "set (trace st1) \<subseteq> set (trace (snd (upsert_monthly_rows e
             (make_rows (opening_balance_tbl e) accts mk vm) st1)))"
    by (rule upsert_monthly_rows_mono)
  show ?thesis using 1 2 f
    by (auto simp: noncum_month_def case_prod_beta sum.case_eq_if print_msg_def)
qed

lemma noncum_loop_mono: "set (trace st) \<subseteq> set (trace (snd (noncum_loop e accts ms st)))"
proof (induction ms arbitrary: st)
  case Nil
  then show ?case by simp
next
  case (Cons mk ms)
  have 1: "set (trace st) \<subseteq> set (trace (snd (noncum_month e accts mk st)))"
    by (rule noncum_month_mono)
  show ?case using 1 Cons.IH[of "snd (noncum_month e accts mk st)"]
    by (auto simp: case_prod_beta sum.case_eq_if)
qed

section \<open>The table after the loops\<close>

lemma cum_loop_Inr:
  "cum_loop e accts ims st = (Inr u, st') \<Longrightarrow>
     monthly_balance_tbl st' = cum_table e accts ims (monthly_balance_tbl st)"
proof (induction ims arbitrary: st)
  case Nil
  then show ?case by (simp add: cum_table_def)
next
  case (Cons im ims)
  obtain i mk where im: "im = (i, mk)" by (cases im)
  from Cons.prems im obtain u1 st1 where
    s: "cum_month e accts i mk st = (Inr u1, st1)" and
    r: "cum_loop e accts ims st1 = (Inr u, st')"
    by (auto split: prod.splits sum.splits)
  from Cons.IH[OF r] cum_month_Inr[OF s] im show ?case
    by (simp add: cum_table_def)
qed

lemma cum_loop_Inl:
  "cum_loop e accts ims st = (Inl x, st') \<Longrightarrow>
     \<exists>k<length ims. monthly_balance_tbl st' = cum_table e accts (take k ims) (monthly_balance_tbl st)"
proof (induction ims arbitrary: st)
  case Nil
  then show ?case by simp
next
  case (Cons im ims)
  obtain i mk where im: "im = (i, mk)" by (cases im)
  obtain r st1 where s: "cum_month e accts i mk st = (r, st1)"
    by (cases "cum_month e accts i mk st")
  show ?case
  proof (cases r)
    case (Inl y)
    with s Cons.prems im have "st' = st1" by simp
    with cum_month_Inl[of e accts i mk st y st1] s Inl
    have "monthly_balance_tbl st' = cum_table e accts (take 0 (im # ims)) (monthly_balance_tbl st)"
      by (simp add: cum_table_def)
    then show ?thesis by blast
  next
    case (Inr u1)
    with s Cons.prems im have r: "cum_loop e accts ims st1 = (Inl x, st')" by simp
    from Cons.IH[OF r] obtain k where k: "k < length ims"
      and t: "monthly_balance_tbl st' = cum_table e accts (take k ims) (monthly_balance_tbl st1)"
      by blast
    from cum_month_Inr[of e accts i mk st u1 st1] s Inr
    have "monthly_balance_tbl st1 =
            batch_table (opening_balance_tbl e) accts mk (\<lambda>a. cum_total e a i) (monthly_balance_tbl st)"
      by simp
    with t im have "monthly_balance_tbl st' =
        cum_table e accts (take (Suc k) (im # ims)) (monthly_balance_tbl st)"
      by (simp add: cum_table_def)
    with k show ?thesis by (intro exI[of _ "Suc k"]) simp
  qed
qed

lemma noncum_table_cong:
  "(\<And>m. m \<in> set ms \<Longrightarrow> F m = G m) \<Longrightarrow> noncum_table e accts F ms t = noncum_table e accts G ms t"
proof (induction ms arbitrary: t)
  case Nil
  then show ?case by (simp add: noncum_table_def)
next
  case (Cons m ms)
  have "noncum_delta e F m = noncum_delta e G m"
    using Cons.prems by (auto simp: noncum_delta_def)
  moreover have "\<And>t. noncum_table e accts F ms t = noncum_table e accts G ms t"
    using Cons.prems by (intro Cons.IH) auto
  ultimately show ?case by (simp add: noncum_table_def)
qed

lemma noncum_month_keeps_unprinted:
  assumes "m \<noteq> mk" and "\<not> voucher_error_printed st m"
  shows "\<not> voucher_error_printed (snd (noncum_month e accts mk st)) m"
proof -
  have "trace_all (\<lambda>ev. ev \<noteq> Print (MsgErrorVoucher m)) st"
    using assms(2) by (auto simp: trace_all_def voucher_error_printed_def)
  then have "trace_all (\<lambda>ev. ev \<noteq> Print (MsgErrorVoucher m)) (snd (noncum_month e accts mk st))"
    using assms(1) by (intro noncum_month_trace) auto
  then show ?thesis by (auto simp: trace_all_def voucher_error_printed_def)
qed

lemma noncum_loop_keeps_unprinted:
  assumes "m \<notin> set ms" and "\<not> voucher_error_printed st m"
  shows "\<not> voucher_error_printed (snd (noncum_loop e accts ms st)) m"
proof -
  have "trace_all (\<lambda>ev. ev \<noteq> Print (MsgErrorVoucher m)) st"
    using assms(2) by (auto simp: trace_all_def voucher_error_printed_def)
  then have "trace_all (\<lambda>ev. ev \<noteq> Print (MsgErrorVoucher m)) (snd (noncum_loop e accts ms st))"
    using assms(1) by (intro noncum_loop_trace) auto
  then show ?thesis by (auto simp: trace_all_def voucher_error_printed_def)
qed

lemma noncum_loop_Inr:
  assumes "noncum_loop e accts ms st = (Inr u, st')" and "distinct ms"
    and "\<forall>m\<in>set ms. \<not> voucher_error_printed st m"
  shows "monthly_balance_tbl st' =
           noncum_table e accts (voucher_error_printed st') ms (monthly_balance_tbl st)"
  using assms
proof (induction ms arbitrary: st)
  case Nil
  then show ?case by (simp add: noncum_table_def)
next
  case (Cons mk ms)
  from Cons.prems(1) obtain u1 st1 where
    s: "noncum_month e accts mk st = (Inr u1, st1)" and
    r: "noncum_loop e accts ms st1 = (Inr u, st')"
    by (auto split: prod.splits sum.splits)
  have st1: "st1 = snd (noncum_month e accts mk st)" using s by simp
  have st': "st' = snd (noncum_loop e accts ms st1)" using r by simp
  have un1: "\<forall>m\<in>set ms. \<not> voucher_error_printed st1 m"
  proof
    fix m assume m: "m \<in> set ms"
    with Cons.prems(2,3) have "m \<noteq> mk" and "\<not> voucher_error_printed st m" by auto
    then show "\<not> voucher_error_printed st1 m"
      unfolding st1 by (rule noncum_month_keeps_unprinted)
  qed
  have t1: "monthly_balance_tbl st1 =
      batch_table (opening_balance_tbl e) accts mk (noncum_delta e (voucher_error_printed st1) mk)
        (monthly_balance_tbl st)"
    using noncum_month_Inr[OF s] Cons.prems(3) by simp
  have same: "voucher_error_printed st' mk = voucher_error_printed st1 mk"
  proof
    assume "voucher_error_printed st' mk"
    then show "voucher_error_printed st1 mk"
      using noncum_loop_keeps_unprinted[of mk ms st1 e accts] Cons.prems(2) st' by auto
  next
    assume "voucher_error_printed st1 mk"
    then show "voucher_error_printed st' mk"
      using noncum_loop_mono[of st1 e accts ms] st' by (auto simp: voucher_error_printed_def)
  qed
  have "monthly_balance_tbl st' =
          noncum_table e accts (voucher_error_printed st') ms (monthly_balance_tbl st1)"
    using Cons.IH[OF r] Cons.prems(2) un1 by simp
  moreover have "noncum_delta e (voucher_error_printed st') mk
                 = noncum_delta e (voucher_error_printed st1) mk"
    by (rule ext) (simp add: noncum_delta_def same)
  ultimately show ?case using t1
    by (simp add: noncum_table_def)
qed

section \<open>Rows of the closed-form tables\<close>

lemma batch_table_apply:
  "batch_table ob accts mk d t (a, m) =
     (if m = mk \<and> a \<in> set accts
      then Some (merged_row (t (a, m)) (get_or_0 (ob_map ob) a + d a)
                   (dict_get (ob_desc_map ob) a) (dict_get (ob_type_map ob) a))
      else t (a, m))"
  by (simp add: batch_table_def)

lemma cum_table_Cons:
  "cum_table e accts ((i, mk) # ims) t =
     cum_table e accts ims (batch_table (opening_balance_tbl e) accts mk (\<lambda>a. cum_total e a i) t)"
  by (simp add: cum_table_def)

lemma cum_table_Nil: "cum_table e accts [] t = t"
  by (simp add: cum_table_def)

lemma noncum_table_Cons:
  "noncum_table e accts F (mk # ms) t =
     noncum_table e accts F ms (batch_table (opening_balance_tbl e) accts mk (noncum_delta e F mk) t)"
  by (simp add: noncum_table_def)

lemma noncum_table_Nil: "noncum_table e accts F [] t = t"
  by (simp add: noncum_table_def)

lemma cum_table_other:
  "a \<notin> set accts \<or> m \<notin> snd ` set ims \<Longrightarrow> cum_table e accts ims t (a, m) = t (a, m)"
proof (induction ims arbitrary: t)
  case Nil
  then show ?case by (simp add: cum_table_Nil)
next
  case (Cons im ims)
  obtain i mk where im: "im = (i, mk)" by (cases im)
  from Cons.prems have "a \<notin> set accts \<or> m \<notin> snd ` set ims" by auto
  from Cons.IH[OF this] Cons.prems im show ?case
    by (auto simp: cum_table_Cons batch_table_apply)
qed

lemma cum_table_at:
  "distinct (map snd ims) \<Longrightarrow> (i, m) \<in> set ims \<Longrightarrow> a \<in> set accts \<Longrightarrow>
     cum_table e accts ims t (a, m) =
       Some (merged_row (t (a, m)) (get_or_0 (ob_map (opening_balance_tbl e)) a + cum_total e a i)
               (dict_get (ob_desc_map (opening_balance_tbl e)) a)
               (dict_get (ob_type_map (opening_balance_tbl e)) a))"
proof (induction ims arbitrary: t)
  case Nil
  then show ?case by simp
next
  case (Cons im ims)
  obtain j mk where im: "im = (j, mk)" by (cases im)
  show ?case
  proof (cases "(i, m) = (j, mk)")
    case True
    with Cons.prems(1) im have "m \<notin> snd ` set ims" by auto
    then have "cum_table e accts ims
                 (batch_table (opening_balance_tbl e) accts mk (\<lambda>a. cum_total e a j) t) (a, m)
               = batch_table (opening_balance_tbl e) accts mk (\<lambda>a. cum_total e a j) t (a, m)"
      by (intro cum_table_other) simp
    with True Cons.prems(3) im show ?thesis
      by (simp add: cum_table_Cons batch_table_apply)
  next
    case False
    with Cons.prems im have in_rest: "(i, m) \<in> set ims" by auto
    then have "m \<in> snd ` set ims" by force
    with Cons.prems(1) im have "m \<noteq> mk" by auto
    moreover from Cons.prems(1) have "distinct (map snd ims)" by simp
    ultimately show ?thesis
      using Cons.IH[OF _ in_rest Cons.prems(3),
                    of "batch_table (opening_balance_tbl e) accts mk (\<lambda>a. cum_total e a j) t"] im
      by (simp add: cum_table_Cons batch_table_apply)
  qed
qed

lemma noncum_table_other:
  "a \<notin> set accts \<or> m \<notin> set ms \<Longrightarrow> noncum_table e accts F ms t (a, m) = t (a, m)"
proof (induction ms arbitrary: t)
  case Nil
  then show ?case by (simp add: noncum_table_Nil)
next
  case (Cons mk ms)
  from Cons.prems have "a \<notin> set accts \<or> m \<notin> set ms" by auto
  from Cons.IH[OF this] Cons.prems show ?case
    by (auto simp: noncum_table_Cons batch_table_apply)
qed

lemma noncum_table_at:
  "distinct ms \<Longrightarrow> m \<in> set ms \<Longrightarrow> a \<in> set accts \<Longrightarrow>
     noncum_table e accts F ms t (a, m) =
       Some (merged_row (t (a, m))
               (get_or_0 (ob_map (opening_balance_tbl e)) a + noncum_delta e F m a)
               (dict_get (ob_desc_map (opening_balance_tbl e)) a)
               (dict_get (ob_type_map (opening_balance_tbl e)) a))"
proof (induction ms arbitrary: t)
  case Nil
  then show ?case by simp
next
  case (Cons mk ms)
  show ?case
  proof (cases "m = mk")
    case True
    with Cons.prems(1) have "m \<notin> set ms" by auto
    then have "noncum_table e accts F ms
                 (batch_table (opening_balance_tbl e) accts mk (noncum_delta e F mk) t) (a, m)
               = batch_table (opening_balance_tbl e) accts mk (noncum_delta e F mk) t (a, m)"
      by (intro noncum_table_other) simp
    with True Cons.prems(3) show ?thesis
      by (simp add: noncum_table_Cons batch_table_apply)
  next
    case False
    with Cons.prems have in_rest: "m \<in> set ms" by auto
    from Cons.prems(1) have "distinct ms" by simp
    with False show ?thesis
      using Cons.IH[OF _ in_rest Cons.prems(3),
                    of "batch_table (opening_balance_tbl e) accts mk (noncum_delta e F mk) t"]
      by (simp add: noncum_table_Cons batch_table_apply)
  qed
qed

lemma cum_table_no_accounts: "cum_table e [] ims t = t"
  by (rule ext) (auto simp: cum_table_other)

lemma noncum_table_no_accounts: "noncum_table e [] F ms t = t"
  by (rule ext) (auto simp: noncum_table_other)

lemma distinct_MONTHS: "distinct MONTHS"
  by (simp add: MONTHS_def)

lemma length_MONTHS: "length MONTHS = 9"
  by (simp add: MONTHS_def)

lemma enumerate_MONTHS_distinct: "distinct (map snd (enumerate 0 MONTHS))"
  by (simp add: distinct_MONTHS)

lemma enumerate_MONTHS_mem: "i < 9 \<Longrightarrow> (i, MONTHS ! i) \<in> set (enumerate 0 MONTHS)"
  by (simp add: in_set_enumerate_eq length_MONTHS)

lemma snd_enumerate_MONTHS: "snd ` set (enumerate 0 MONTHS) = set MONTHS"
  by (metis list.set_map map_snd_enumerate)

section \<open>The table after a finished run\<close>

lemma check_tables_monthly:
  "monthly_balance_tbl (snd (check_tables e ts st)) = monthly_balance_tbl st"
proof (induction ts arbitrary: st)
  case Nil
  then show ?case by simp
next
  case (Cons t ts)
  show ?case using Cons.IH[of "snd (db_exec e (CountTable t) st)"]
    by (simp add: case_prod_beta bool.case_eq_if)
qed

lemma process_cumulative_Inr:
  "process_cumulative e st = (Inr u, st') \<Longrightarrow>
     monthly_balance_tbl st' =
       cum_table e (accounts_cum (opening_balance_tbl e)) (enumerate 0 MONTHS) (monthly_balance_tbl st)"
  by (auto simp: process_cumulative_def cum_table_no_accounts dest: cum_loop_Inr split: if_splits)

lemma process_cumulative_trace:
  assumes "trace_all Q st"
    and "\<And>tn a y m ok. Q (Stmt (SelectVoucherSum tn a y m) ok)"
    and "\<And>ok. Q (Stmt StartTransaction ok)" and "\<And>r ok. Q (Stmt (InsertMonthly r) ok)"
    and "\<And>ok. Q (Stmt Commit ok)" and "\<And>ok. Q (Stmt Rollback ok)" and "Q (Print MsgErrorUpsert)"
    and "\<And>mk. Q (Print (MsgProcessingCum mk))" and "\<And>n mk. Q (Print (MsgUpsertedCum n mk))"
  shows "trace_all Q (snd (process_cumulative e st))"
  unfolding process_cumulative_def using assms
  by (auto intro!: cum_loop_trace)

lemma process_noncumulative_Inr:
  assumes "process_noncumulative e st = (Inr u, st')"
    and "\<forall>m\<in>set MONTHS. \<not> voucher_error_printed st m"
  shows "monthly_balance_tbl st' =
       noncum_table e (accounts_noncum (opening_balance_tbl e)) (voucher_error_printed st') MONTHS
         (monthly_balance_tbl st)"
proof (cases "accounts_noncum (opening_balance_tbl e) = []")
  case True
  with assms(1) show ?thesis
    by (simp add: process_noncumulative_def noncum_table_no_accounts)
next
  case False
  with assms(1) have "noncum_loop e (accounts_noncum (opening_balance_tbl e)) MONTHS st = (Inr u, st')"
    by (simp add: process_noncumulative_def)
  from noncum_loop_Inr[OF this distinct_MONTHS assms(2)] show ?thesis .
qed

lemma process_noncumulative_trace:
  assumes "trace_all Q st"
    and "\<And>tn y m al ok. Q (Stmt (SelectVoucherAmounts tn y m al) ok)"
    and "\<And>mk. mk \<in> set MONTHS \<Longrightarrow> parse_month_key mk = None \<or> (\<exists>n. fails e n)
           \<Longrightarrow> Q (Print (MsgErrorVoucher mk))"
    and "\<And>ok. Q (Stmt StartTransaction ok)" and "\<And>r ok. Q (Stmt (InsertMonthly r) ok)"
    and "\<And>ok. Q (Stmt Commit ok)" and "\<And>ok. Q (Stmt Rollback ok)" and "Q (Print MsgErrorUpsert)"
    and "\<And>mk. Q (Print (MsgProcessingNoncum mk))" and "\<And>n mk. Q (Print (MsgUpsertedNoncum n mk))"
  shows "trace_all Q (snd (process_noncumulative e st))"
proof (cases "accounts_noncum (opening_balance_tbl e) = []")
  case True
  then show ?thesis using assms(1) by (simp add: process_noncumulative_def)
next
  case False
  have "trace_all Q (snd (noncum_loop e (accounts_noncum (opening_balance_tbl e)) MONTHS st))"
    by (rule noncum_loop_trace) (use assms in blast)+
  with False show ?thesis by (simp add: process_noncumulative_def)
qed


lemma check_tables_Inl:
  "check_tables e ts st = (Inl x, st') \<Longrightarrow> x = Uncaught \<or> x = Exit 2"
proof (induction ts arbitrary: st)
  case Nil
  then show ?case by simp
next
  case (Cons t ts)
  show ?case using Cons.prems
    by (auto dest!: Cons.IH split: prod.splits bool.splits if_splits)
qed

lemma sum_months_Inl:
  "sum_months e acct ms t st = (Inl x, st') \<Longrightarrow> x = Uncaught"
proof (induction ms arbitrary: t st)
  case Nil
  then show ?case by simp
next
  case (Cons m ms)
  show ?case using Cons.prems
    by (auto simp: Let_def dest!: Cons.IH split: option.splits prod.splits bool.splits if_splits)
qed

lemma cumulative_voucher_map_Inl:
  "cumulative_voucher_map e ms accts cvm st = (Inl x, st') \<Longrightarrow> x = Uncaught"
proof (induction accts arbitrary: cvm st)
  case Nil
  then show ?case by simp
next
  case (Cons acct accts)
  show ?case using Cons.prems
    by (auto dest!: Cons.IH sum_months_Inl split: prod.splits sum.splits)
qed

lemma cum_month_Inl_outcome:
  "cum_month e accts i mk st = (Inl x, st') \<Longrightarrow> x = Exit 5 \<or> x = Uncaught"
  by (auto simp: cum_month_def dest!: cumulative_voucher_map_Inl upsert_monthly_rows_Inl
           split: prod.splits sum.splits)

lemma cum_loop_Inl_outcome:
  "cum_loop e accts ims st = (Inl x, st') \<Longrightarrow> x = Exit 5 \<or> x = Uncaught"
proof (induction ims arbitrary: st)
  case Nil
  then show ?case by simp
next
  case (Cons im ims)
  show ?case using Cons.prems
    by (cases im) (auto dest!: Cons.IH cum_month_Inl_outcome split: prod.splits sum.splits)
qed

lemma noncum_loop_Inl_outcome:
  "noncum_loop e accts ms st = (Inl x, st') \<Longrightarrow> x = Exit 5 \<or> x = Uncaught"
proof (induction ms arbitrary: st)
  case Nil
  then show ?case by simp
next
  case (Cons mk ms)
  show ?case using Cons.prems
    by (auto dest!: Cons.IH noncum_month_Inl split: prod.splits sum.splits)
qed

lemma process_cumulative_Inl:
  "process_cumulative e st = (Inl x, st') \<Longrightarrow> x = Exit 5 \<or> x = Uncaught"
  by (auto simp: process_cumulative_def dest!: cum_loop_Inl_outcome split: if_splits)

lemma process_noncumulative_Inl:
  "process_noncumulative e st = (Inl x, st') \<Longrightarrow> x = Exit 5 \<or> x = Uncaught"
  by (auto simp: process_noncumulative_def dest!: noncum_loop_Inl_outcome split: if_splits)

text \<open>The states the script goes through.\<close>

lemma script_Finished_steps:
  assumes "script e st = (Finished, st')"
  obtains st1 st2 st3 st4 where
    "check_tables e required_tables st = (Inr (), st1)"
    "db_exec e SelectOpeningBalance st1 = (True, st2)"
    "process_cumulative e (print_msg (MsgProcessingAccounts
         (length (accounts_cum (opening_balance_tbl e)))
         (length (accounts_noncum (opening_balance_tbl e)))) st2) = (Inr (), st3)"
    "process_noncumulative e st3 = (Inr (), st4)"
    "st' = print_msg MsgAllProcessed st4"
  using assms
  by (auto simp: script_def
        dest!: check_tables_Inl process_cumulative_Inl process_noncumulative_Inl
        split: prod.splits sum.splits bool.splits if_splits)

lemma script_Finished_table:
  assumes "script e st = (Finished, st')"
    and "\<forall>m\<in>set MONTHS. \<not> voucher_error_printed st m"
  shows "monthly_balance_tbl st' =
           final_table e (voucher_error_printed st') (monthly_balance_tbl st)"
proof -
  let ?p = "MsgProcessingAccounts (length (accounts_cum (opening_balance_tbl e)))
              (length (accounts_noncum (opening_balance_tbl e)))"
  from assms(1) obtain st1 st2 st3 st4 where
    c: "check_tables e required_tables st = (Inr (), st1)" and
    o: "db_exec e SelectOpeningBalance st1 = (True, st2)" and
    pc: "process_cumulative e (print_msg ?p st2) = (Inr (), st3)" and
    pn: "process_noncumulative e st3 = (Inr (), st4)" and
    f: "st' = print_msg MsgAllProcessed st4"
    by (rule script_Finished_steps)
  have m2: "monthly_balance_tbl (print_msg ?p st2) = monthly_balance_tbl st"
    using check_tables_monthly[of e required_tables st] c db_exec_monthly[of e SelectOpeningBalance st1] o
    by simp
  have un3: "\<forall>m\<in>set MONTHS. \<not> voucher_error_printed st3 m"
  proof
    fix m assume "m \<in> set MONTHS"
    let ?Q = "\<lambda>ev. ev \<noteq> Print (MsgErrorVoucher m)"
    have "trace_all ?Q st"
      using assms(2) \<open>m \<in> set MONTHS\<close> by (auto simp: trace_all_def voucher_error_printed_def)
    then have "trace_all ?Q (snd (check_tables e required_tables st))"
      by (intro check_tables_trace) auto
    then have "trace_all ?Q st1" using c by simp
    then have "trace_all ?Q (snd (db_exec e SelectOpeningBalance st1))"
      by (intro trace_all_db_exec) auto
    then have "trace_all ?Q (print_msg ?p st2)" using o
      by (intro trace_all_print_msg) auto
    then have "trace_all ?Q (snd (process_cumulative e (print_msg ?p st2)))"
      by (intro process_cumulative_trace) auto
    then show "\<not> voucher_error_printed st3 m"
      using pc by (auto simp: trace_all_def voucher_error_printed_def)
  qed
  have same: "voucher_error_printed st' = voucher_error_printed st4"
    using f by (auto simp: voucher_error_printed_def print_msg_def fun_eq_iff)
  from process_cumulative_Inr[OF pc] process_noncumulative_Inr[OF pn un3] m2 same f
  show ?thesis by (simp add: final_table_def)
qed

lemma run_Finished_table:
  assumes "fst (run e mb) = Finished"
  shows "monthly_balance_tbl (snd (run e mb)) = final_table e (voucher_error_printed (snd (run e mb))) mb"
proof -
  let ?st = "\<lparr>clock = 0, trace = [], monthly_balance_tbl = mb\<rparr>"
  have "script e ?st = (Finished, snd (run e mb))"
    using assms by (simp add: run_def prod_eq_iff)
  from script_Finished_table[OF this] show ?thesis
    by (simp add: voucher_error_printed_def)
qed

section \<open>The dictionaries and the queries on well-formed data\<close>

text \<open>
  What the dictionaries and the \<^verbatim>\<open>WHERE\<close> clause mean on well-formed data: with one
  row for each account, \<open>ob_map\<close> holds the opening balance of the row (NULL as 0); on a
  row whose voucher is not NULL the clause selects by account, month and the voucher
  not being a marker, and a row whose voucher is NULL is never selected.
\<close>

lemma dict_zip_snoc: "dict_zip (kvs @ [kv]) = (dict_zip kvs)(fst kv \<mapsto> snd kv)"
  by (simp add: dict_zip_def)

lemma dict_zip_not_key: "k \<notin> fst ` set kvs \<Longrightarrow> dict_zip kvs k = None"
  by (induction kvs rule: rev_induct) (auto simp: dict_zip_snoc, simp add: dict_zip_def)

lemma dict_zip_distinct:
  "distinct (map fst kvs) \<Longrightarrow> (k, v) \<in> set kvs \<Longrightarrow> dict_zip kvs k = Some v"
proof (induction kvs rule: rev_induct)
  case Nil
  then show ?case by simp
next
  case (snoc kv kvs)
  then show ?case
    by (cases kv) (auto simp: dict_zip_snoc rev_image_eqI)
qed

lemma ob_map_distinct:
  assumes "distinct (map ob_account rows)" and "r \<in> set rows"
  shows "get_or_0 (ob_map rows) (ob_account r) = coalesce0 (ob_opening_balance r)"
proof -
  have "distinct (map fst (map (\<lambda>r. (ob_account r, coalesce0 (ob_opening_balance r))) rows))"
    using assms(1) by (simp add: comp_def)
  moreover have "(ob_account r, coalesce0 (ob_opening_balance r))
      \<in> set (map (\<lambda>r. (ob_account r, coalesce0 (ob_opening_balance r))) rows)"
    using assms(2) by auto
  ultimately show ?thesis
    unfolding ob_map_def get_or_0_def by (simp add: dict_zip_distinct)
qed

lemma voucher_where_tagged:
  "v_voucher r = Some v \<Longrightarrow>
     voucher_where a y m r \<longleftrightarrow>
       (v_account_code r = a \<and> d_year (v_transaction_date r) = y
        \<and> d_month (v_transaction_date r) = m
        \<and> v \<noteq> ''BRTFWD'' \<and> v \<noteq> ''ROLCLR'' \<and> v \<noteq> ''OBTFER'')"
  by (auto simp: voucher_where_def voucher_not_in_markers_def marker_vouchers_def)

lemma voucher_where_null: "v_voucher r = None \<Longrightarrow> \<not> voucher_where a y m r"
  by (simp add: voucher_where_def voucher_not_in_markers_def)

lemma voucher_sum_q_eq_sum_list:
  "voucher_sum_q tbl a y m =
     sum_list (map (\<lambda>r. coalesce0 (v_amount_original r)) (filter (voucher_where a y m) tbl))"
  by (induction tbl)
     (auto simp: voucher_sum_q_def sql_sum_def coalesce0_def comp_def split: option.splits if_splits)

section \<open>The exclusion of the marker vouchers\<close>

lemma marker_not_selected:
  "v_voucher r = Some v \<Longrightarrow> v \<in> set marker_vouchers \<Longrightarrow> \<not> voucher_where a y m r"
  by (simp add: voucher_where_def voucher_not_in_markers_def)

text \<open>
  C5. A transaction whose voucher tag is one of BRTFWD, ROLCLR and OBTFER adds nothing
  to any of the monthly sums: the query of the cumulative loop and the grouped query of
  \<^verbatim>\<open>fetch_voucher_amounts_for_month\<close> return the same on a table with the transaction,
  anywhere in it and whatever its amount, account and date, as on the table without it.
\<close>

theorem marker_voucher_contributes_nothing:
  assumes "v_voucher r = Some v" and "v \<in> set marker_vouchers"
  shows "voucher_sum_q (xs @ r # ys) a y m = voucher_sum_q (xs @ ys) a y m
         \<and> voucher_amounts_q (xs @ r # ys) y m accts = voucher_amounts_q (xs @ ys) y m accts"
proof -
  have n: "\<And>a. \<not> voucher_where a y m r"
    using assms by (rule marker_not_selected)
  have s: "\<And>a. voucher_sum_q (xs @ r # ys) a y m = voucher_sum_q (xs @ ys) a y m"
    using n by (simp add: voucher_sum_q_def)
  have "voucher_amounts_q (xs @ r # ys) y m accts = voucher_amounts_q (xs @ ys) y m accts"
    using n s by (simp add: voucher_amounts_q_def fun_eq_iff)
  with s show ?thesis by simp
qed

theorem marker_voucher_contributes_nothing_witness:
  "v_voucher \<lparr>v_account_code = ''1000'',
              v_transaction_date = \<lparr>d_year = 2025, d_month = 1, d_day = 1\<rparr>,
              v_amount_original = Some 9999, v_voucher = Some ''BRTFWD''\<rparr> = Some ''BRTFWD''
   \<and> ''BRTFWD'' \<in> set marker_vouchers
   \<and> voucher_sum_q
        [\<lparr>v_account_code = ''1000'',
          v_transaction_date = \<lparr>d_year = 2025, d_month = 1, d_day = 1\<rparr>,
          v_amount_original = Some 9999, v_voucher = Some ''BRTFWD''\<rparr>,
         \<lparr>v_account_code = ''1000'',
          v_transaction_date = \<lparr>d_year = 2025, d_month = 1, d_day = 3\<rparr>,
          v_amount_original = Some 50, v_voucher = Some ''JV''\<rparr>] ''1000'' 2025 1 = 50"
proof -
  let ?r = "\<lparr>v_account_code = ''1000'',
              v_transaction_date = \<lparr>d_year = 2025, d_month = 1, d_day = 1\<rparr>,
              v_amount_original = Some 9999, v_voucher = Some ''BRTFWD''\<rparr>"
  let ?s = "\<lparr>v_account_code = ''1000'',
              v_transaction_date = \<lparr>d_year = 2025, d_month = 1, d_day = 3\<rparr>,
              v_amount_original = Some 50, v_voucher = Some ''JV''\<rparr>"
  have h1: "v_voucher ?r = Some ''BRTFWD''" by simp
  have h2: "''BRTFWD'' \<in> set marker_vouchers" by (simp add: marker_vouchers_def)
  have "voucher_sum_q ([] @ ?r # [?s]) ''1000'' 2025 1 = voucher_sum_q ([] @ [?s]) ''1000'' 2025 1"
    using marker_voucher_contributes_nothing[OF h1 h2, of "[]" "[?s]" "''1000''" 2025 1 "[]"]
    by blast
  moreover have "voucher_sum_q [?s] ''1000'' 2025 1 = 50"
    by (simp add: voucher_sum_q_def voucher_where_def voucher_not_in_markers_def
          marker_vouchers_def sql_sum_def coalesce0_def)
  ultimately show ?thesis using h1 h2 by simp
qed

section \<open>Runs in which no statement raises\<close>

lemma parse_MONTHS:
  "map parse_month_key MONTHS =
     [Some (2025, 1), Some (2025, 2), Some (2025, 3), Some (2025, 4), Some (2025, 5),
      Some (2025, 6), Some (2025, 7), Some (2025, 8), Some (2025, 9)]"
  by (simp add: MONTHS_def parse_month_key_def py_int_def is_digit_def)

lemma table_names_MONTHS:
  "map voucher_table_name MONTHS =
     [''vouchers'', ''vouchers'', ''vouchers'', ''vouchers'', ''vouchers'', ''vouchers'',
      ''vouchers'', ''vouchers_curr_month'', ''vouchers_curr_month'']"
  by (simp add: MONTHS_def voucher_table_name_def)

lemma parse_MONTHS_ok: "m \<in> set MONTHS \<Longrightarrow> parse_month_key m \<noteq> None"
proof -
  assume "m \<in> set MONTHS"
  then have "parse_month_key m \<in> set (map parse_month_key MONTHS)" by simp
  then show ?thesis unfolding parse_MONTHS by auto
qed

lemma check_tables_ok:
  "\<forall>n. \<not> fails e n \<Longrightarrow> set ts \<subseteq> set (tables e) \<Longrightarrow> fst (check_tables e ts st) = Inr ()"
  by (induction ts arbitrary: st) (auto simp: db_exec_def)

lemma sum_months_ok:
  "\<forall>n. \<not> fails e n \<Longrightarrow> \<forall>m\<in>set ms. parse_month_key m \<noteq> None \<Longrightarrow>
     \<exists>v. fst (sum_months e acct ms t st) = Inr v"
  by (induction ms arbitrary: t st) (auto simp: db_exec_def Let_def)

lemma cumulative_voucher_map_ok:
  assumes "\<forall>n. \<not> fails e n" and "\<forall>m\<in>set ms. parse_month_key m \<noteq> None"
  shows "\<exists>v. fst (cumulative_voucher_map e ms accts cvm st) = Inr v"
proof (induction accts arbitrary: cvm st)
  case Nil
  then show ?case by simp
next
  case (Cons acct accts)
  from sum_months_ok[OF assms, of acct 0 st] obtain v where
    "fst (sum_months e acct ms 0 st) = Inr v" by blast
  then show ?case using Cons.IH
    by (cases "sum_months e acct ms 0 st") auto
qed

lemma exec_inserts_ok: "\<forall>n. \<not> fails e n \<Longrightarrow> fst (exec_inserts e rows st)"
  by (induction rows arbitrary: st) (auto simp: db_exec_def)

lemma upsert_monthly_rows_ok:
  "\<forall>n. \<not> fails e n \<Longrightarrow> fst (upsert_monthly_rows e rows st) = Inr (length rows)"
  using exec_inserts_ok[of e rows]
  by (simp add: upsert_monthly_rows_def db_exec_def case_prod_beta bool.case_eq_if)

lemma cum_month_ok:
  assumes "\<forall>n. \<not> fails e n"
  shows "fst (cum_month e accts i mk st) = Inr ()"
proof -
  have p: "\<forall>m\<in>set (take (i + 1) MONTHS). parse_month_key m \<noteq> None"
    using parse_MONTHS_ok by (auto dest: in_set_takeD)
  from cumulative_voucher_map_ok[OF assms p] obtain v where
    "fst (cumulative_voucher_map e (take (i + 1) MONTHS) accts Map.empty
            (print_msg (MsgProcessingCum mk) st)) = Inr v" by blast
  then show ?thesis using upsert_monthly_rows_ok[OF assms]
    by (simp add: cum_month_def case_prod_beta sum.case_eq_if)
qed

lemma cum_loop_ok:
  assumes "\<forall>n. \<not> fails e n"
  shows "fst (cum_loop e accts ims st) = Inr ()"
proof (induction ims arbitrary: st)
  case Nil
  then show ?case by simp
next
  case (Cons im ims)
  obtain i mk where im: "im = (i, mk)" by (cases im)
  show ?case using cum_month_ok[OF assms, of accts i mk st] Cons.IH im
    by (simp add: case_prod_beta sum.case_eq_if)
qed

lemma noncum_month_ok:
  assumes "\<forall>n. \<not> fails e n"
  shows "fst (noncum_month e accts mk st) = Inr ()"
  using upsert_monthly_rows_ok[OF assms]
  by (simp add: noncum_month_def case_prod_beta sum.case_eq_if)

lemma noncum_loop_ok:
  assumes "\<forall>n. \<not> fails e n"
  shows "fst (noncum_loop e accts ms st) = Inr ()"
proof (induction ms arbitrary: st)
  case Nil
  then show ?case by simp
next
  case (Cons mk ms)
  show ?case using noncum_month_ok[OF assms, of accts mk st] Cons.IH
    by (simp add: case_prod_beta sum.case_eq_if)
qed

lemma script_ok:
  assumes "\<forall>n. \<not> fails e n" and "set required_tables \<subseteq> set (tables e)"
  shows "fst (script e st) =
           (if accounts_cum (opening_balance_tbl e) = [] \<and> accounts_noncum (opening_balance_tbl e) = []
            then Exit 0 else Finished)"
  using check_tables_ok[OF assms, of st] cum_loop_ok[OF assms(1)] noncum_loop_ok[OF assms(1)] assms(1)
  by (simp add: script_def db_exec_def process_cumulative_def process_noncumulative_def
        case_prod_beta sum.case_eq_if bool.case_eq_if)

lemma script_ok_unprinted:
  assumes "\<forall>n. \<not> fails e n" and "m \<in> set MONTHS" and "\<not> voucher_error_printed st m"
  shows "\<not> voucher_error_printed (snd (script e st)) m"
proof -
  let ?Q = "\<lambda>ev. ev \<noteq> Print (MsgErrorVoucher m)"
  let ?p = "MsgProcessingAccounts (length (accounts_cum (opening_balance_tbl e)))
              (length (accounts_noncum (opening_balance_tbl e)))"
  let ?st1 = "snd (check_tables e required_tables st)"
  let ?st2 = "snd (db_exec e SelectOpeningBalance ?st1)"
  let ?st3 = "snd (process_cumulative e (print_msg ?p ?st2))"
  let ?st4 = "snd (process_noncumulative e ?st3)"
  have 0: "trace_all ?Q st"
    using assms(3) by (auto simp: trace_all_def voucher_error_printed_def)
  have 1: "trace_all ?Q ?st1" using 0 by (intro check_tables_trace) auto
  have 2: "trace_all ?Q ?st2" using 1 by (intro trace_all_db_exec) auto
  have s2: "trace_all ?Q (print_msg MsgNoRelevantAccounts ?st2)"
    using 2 by (intro trace_all_print_msg) auto
  have 3: "trace_all ?Q ?st3" using 2 by (intro process_cumulative_trace trace_all_print_msg) auto
  have pm: "parse_month_key m \<noteq> None" using assms(2) by (rule parse_MONTHS_ok)
  have 4: "trace_all ?Q ?st4"
    using 3 assms(1) pm by (intro process_noncumulative_trace) auto
  have 5: "trace_all ?Q (print_msg MsgAllProcessed ?st4)"
    using 4 by (intro trace_all_print_msg) auto
  have "trace_all ?Q (snd (script e st))"
    using 1 2 s2 3 4 5
    by (simp add: script_def case_prod_beta sum.case_eq_if bool.case_eq_if)
  then show ?thesis by (auto simp: trace_all_def voucher_error_printed_def)
qed

lemma run_ok:
  assumes "\<forall>n. \<not> fails e n" and "set required_tables \<subseteq> set (tables e)"
  shows "fst (run e mb) =
           (if accounts_cum (opening_balance_tbl e) = [] \<and> accounts_noncum (opening_balance_tbl e) = []
            then Exit 0 else Finished)"
  unfolding run_def by (rule script_ok[OF assms])

lemma run_ok_unprinted:
  assumes "\<forall>n. \<not> fails e n" and "m \<in> set MONTHS"
  shows "\<not> voucher_error_printed (snd (run e mb)) m"
  unfolding run_def
  by (rule script_ok_unprinted[OF assms]) (simp add: voucher_error_printed_def)

section \<open>Facts about the small database\<close>

lemma example_accounts_cum:
  "accounts_cum (opening_balance_tbl example_env) = [''1000'', ''5000'']"
  by code_simp

lemma example_accounts_noncum:
  "accounts_noncum (opening_balance_tbl example_env) = [''4000'', ''5000'']"
  by code_simp

lemma example_run_Finished: "fst (run example_env mb) = Finished"
proof -
  have "\<forall>n. \<not> fails example_env n" by (simp add: example_env_def)
  moreover have "set required_tables \<subseteq> set (tables example_env)"
    by (simp add: example_env_def required_tables_def OPENING_BALANCE_TABLE_def
          HISTORICAL_TABLE_def MONTHLY_TABLE_def)
  ultimately show ?thesis
    using run_ok[of example_env mb] by (simp add: example_accounts_cum)
qed

lemma example_ob_map:
  "get_or_0 (ob_map (opening_balance_tbl example_env)) ''1000'' = 1000"
  "get_or_0 (ob_map (opening_balance_tbl example_env)) ''4000'' = 20"
  "get_or_0 (ob_map (opening_balance_tbl example_env)) ''5000'' = 100"
  by (simp_all add: example_env_def example_opening_balance_def ob_map_def dict_zip_def
        get_or_0_def coalesce0_def)

lemma example_sums:
  "voucher_sum_q (table_of_index example_env 0) ''1000'' 2025 1 = 50"
  "voucher_sum_q (table_of_index example_env 1) ''1000'' 2025 2 = - 20"
  by (simp_all add: example_env_def example_vouchers_def table_of_index_def voucher_sum_q_def
        voucher_where_def voucher_not_in_markers_def marker_vouchers_def sql_sum_def
        coalesce0_def jan3_def feb3_def)

section \<open>Closed forms of the totals and of the final table\<close>

lemma nth_MONTHS_mem: "i < 9 \<Longrightarrow> MONTHS ! i \<in> set MONTHS"
  by (simp add: length_MONTHS)

lemma parse_nth_MONTHS:
  assumes "k < 9"
  shows "parse_month_key (MONTHS ! k) = Some (2025, k + 1)
         \<and> voucher_table_name (MONTHS ! k)
             = (if k < 7 then ''vouchers'' else ''vouchers_curr_month'')"
proof -
  from assms consider "k = 0" | "k = 1" | "k = 2" | "k = 3" | "k = 4" | "k = 5"
    | "k = 6" | "k = 7" | "k = 8" by linarith
  then show ?thesis
    by cases
      (simp_all add: MONTHS_def parse_month_key_def py_int_def is_digit_def voucher_table_name_def)
qed

lemma month_total_nth:
  assumes "k < 9"
  shows "month_total e a (MONTHS ! k) = voucher_sum_q (table_of_index e k) a 2025 (k + 1)"
  using parse_nth_MONTHS[OF assms]
  by (simp add: month_total_def voucher_table_def table_of_index_def)

lemma cum_total_sum:
  assumes "i < 9"
  shows "cum_total e a i = (\<Sum>k\<le>i. voucher_sum_q (table_of_index e k) a 2025 (k + 1))"
proof -
  have len: "length (take (i + 1) MONTHS) = i + 1"
    using assms by (simp add: length_MONTHS)
  have "cum_total e a i = (\<Sum>k = 0..<i + 1. map (month_total e a) (take (i + 1) MONTHS) ! k)"
    unfolding cum_total_def using len by (simp add: sum_list_sum_nth)
  also have "\<dots> = (\<Sum>k = 0..<i + 1. voucher_sum_q (table_of_index e k) a 2025 (k + 1))"
    using assms len by (intro sum.cong) (auto simp: month_total_nth)
  also have "{0..<i + 1} = {..i}" by auto
  finally show ?thesis .
qed

lemma voucher_sum_q_rows_of_month:
  "voucher_sum_q (rows_of_month y m tbl) a y m = voucher_sum_q tbl a y m"
proof -
  have "filter (voucher_where a y m) (rows_of_month y m tbl) = filter (voucher_where a y m) tbl"
    unfolding rows_of_month_def by (induction tbl) (auto simp: voucher_where_def)
  then show ?thesis by (simp add: voucher_sum_q_def)
qed

lemma final_table_cum_only:
  assumes "a \<in> set (accounts_cum (opening_balance_tbl e))"
    and "a \<notin> set (accounts_noncum (opening_balance_tbl e))" and "i < 9"
  shows "final_table e F mb (a, MONTHS ! i) =
           Some (merged_row (mb (a, MONTHS ! i))
                   (get_or_0 (ob_map (opening_balance_tbl e)) a + cum_total e a i)
                   (dict_get (ob_desc_map (opening_balance_tbl e)) a)
                   (dict_get (ob_type_map (opening_balance_tbl e)) a))"
  unfolding final_table_def
  using assms
  by (simp add: noncum_table_other cum_table_at[OF enumerate_MONTHS_distinct enumerate_MONTHS_mem])

lemma final_table_noncum:
  assumes "a \<in> set (accounts_noncum (opening_balance_tbl e))" and "i < 9"
  shows "final_table e F mb (a, MONTHS ! i) =
           Some (merged_row
                   (cum_table e (accounts_cum (opening_balance_tbl e)) (enumerate 0 MONTHS) mb
                      (a, MONTHS ! i))
                   (get_or_0 (ob_map (opening_balance_tbl e)) a + noncum_delta e F (MONTHS ! i) a)
                   (dict_get (ob_desc_map (opening_balance_tbl e)) a)
                   (dict_get (ob_type_map (opening_balance_tbl e)) a))"
  unfolding final_table_def
  using assms
  by (simp add: noncum_table_at[OF distinct_MONTHS nth_MONTHS_mem])

lemma merged_row_balance [simp]: "mb_opening_balance (merged_row old b d ty) = Some b"
  by (simp add: merged_row_def split: option.splits)

section \<open>Balances of the two groups\<close>

lemma process_cumulative_ok:
  "\<forall>n. \<not> fails e n \<Longrightarrow> fst (process_cumulative e st) = Inr ()"
  by (simp add: process_cumulative_def cum_loop_ok)

lemma process_cumulative_stored:
  assumes "process_cumulative e st = (Inr u, st')"
    and "a \<in> set (accounts_cum (opening_balance_tbl e))" and "i < 9"
  shows "stored_balance st' a (MONTHS ! i) =
           Some (get_or_0 (ob_map (opening_balance_tbl e)) a + cum_total e a i)"
  using process_cumulative_Inr[OF assms(1)] assms(2,3)
  by (simp add: stored_balance_def
        cum_table_at[OF enumerate_MONTHS_distinct enumerate_MONTHS_mem])

lemma run_Finished_stored_cum:
  assumes "fst (run e mb) = Finished"
    and "a \<in> set (accounts_cum (opening_balance_tbl e))"
    and "a \<notin> set (accounts_noncum (opening_balance_tbl e))" and "i < 9"
  shows "stored_balance (snd (run e mb)) a (MONTHS ! i) =
           Some (get_or_0 (ob_map (opening_balance_tbl e)) a + cum_total e a i)"
  using run_Finished_table[OF assms(1)] final_table_cum_only[OF assms(2,3,4)]
  by (simp add: stored_balance_def)

lemma run_Finished_stored_noncum:
  assumes "fst (run e mb) = Finished"
    and "a \<in> set (accounts_noncum (opening_balance_tbl e))" and "i < 9"
  shows "stored_balance (snd (run e mb)) a (MONTHS ! i) =
           Some (get_or_0 (ob_map (opening_balance_tbl e)) a
                 + (if voucher_error_printed (snd (run e mb)) (MONTHS ! i) then 0
                    else voucher_sum_q (rows_of_month 2025 (i + 1) (table_of_index e i)) a 2025 (i + 1)))"
  using run_Finished_table[OF assms(1)] final_table_noncum[OF assms(2,3)] assms(3)
  by (simp add: stored_balance_def noncum_delta_def month_total_nth voucher_sum_q_rows_of_month)

lemma example_more_january_facts:
  "\<forall>n. \<not> fails example_env_more_january n"
  "opening_balance_tbl example_env_more_january = opening_balance_tbl example_env"
  "set required_tables \<subseteq> set (tables example_env_more_january)"
  by (simp_all add: example_env_more_january_def example_env_def required_tables_def
        OPENING_BALANCE_TABLE_def HISTORICAL_TABLE_def MONTHLY_TABLE_def)

section \<open>Independence of the historical table\<close>

lemma db_exec_hist [simp]:
  "db_exec (e\<lparr>historical_variance_tbl := h\<rparr>) q st = db_exec e q st"
  by (simp add: db_exec_def)

lemma check_tables_hist [simp]:
  "check_tables (e\<lparr>historical_variance_tbl := h\<rparr>) ts st = check_tables e ts st"
  by (induction ts arbitrary: st) (simp_all add: case_prod_beta bool.case_eq_if sum.case_eq_if option.case_eq_if Let_def)

lemma sum_months_hist [simp]:
  "sum_months (e\<lparr>historical_variance_tbl := h\<rparr>) acct ms t st = sum_months e acct ms t st"
  by (induction ms arbitrary: t st)
     (simp_all add: voucher_table_def case_prod_beta bool.case_eq_if sum.case_eq_if option.case_eq_if Let_def)

lemma cumulative_voucher_map_hist [simp]:
  "cumulative_voucher_map (e\<lparr>historical_variance_tbl := h\<rparr>) ms accts cvm st
     = cumulative_voucher_map e ms accts cvm st"
  by (induction accts arbitrary: cvm st) (simp_all add: case_prod_beta bool.case_eq_if sum.case_eq_if option.case_eq_if Let_def)

lemma exec_inserts_hist [simp]:
  "exec_inserts (e\<lparr>historical_variance_tbl := h\<rparr>) rows st = exec_inserts e rows st"
  by (induction rows arbitrary: st) (simp_all add: case_prod_beta bool.case_eq_if sum.case_eq_if option.case_eq_if Let_def)

lemma upsert_monthly_rows_hist [simp]:
  "upsert_monthly_rows (e\<lparr>historical_variance_tbl := h\<rparr>) rows st = upsert_monthly_rows e rows st"
  by (simp add: upsert_monthly_rows_def upsert_except_def case_prod_beta bool.case_eq_if sum.case_eq_if option.case_eq_if Let_def)

lemma cum_month_hist [simp]:
  "cum_month (e\<lparr>historical_variance_tbl := h\<rparr>) accts i mk st = cum_month e accts i mk st"
  by (simp add: cum_month_def case_prod_beta bool.case_eq_if sum.case_eq_if option.case_eq_if Let_def)

lemma cum_loop_hist [simp]:
  "cum_loop (e\<lparr>historical_variance_tbl := h\<rparr>) accts ims st = cum_loop e accts ims st"
proof (induction ims arbitrary: st)
  case Nil
  show ?case by simp
next
  case (Cons im ims)
  then show ?case by (cases im) (simp add: case_prod_beta sum.case_eq_if)
qed

lemma fetch_voucher_amounts_for_month_hist [simp]:
  "fetch_voucher_amounts_for_month (e\<lparr>historical_variance_tbl := h\<rparr>) mk accts st
     = fetch_voucher_amounts_for_month e mk accts st"
  by (simp add: fetch_voucher_amounts_for_month_def voucher_table_def case_prod_beta bool.case_eq_if sum.case_eq_if option.case_eq_if Let_def)

lemma noncum_month_hist [simp]:
  "noncum_month (e\<lparr>historical_variance_tbl := h\<rparr>) accts mk st = noncum_month e accts mk st"
  by (simp add: noncum_month_def case_prod_beta bool.case_eq_if sum.case_eq_if option.case_eq_if Let_def)

lemma noncum_loop_hist [simp]:
  "noncum_loop (e\<lparr>historical_variance_tbl := h\<rparr>) accts ms st = noncum_loop e accts ms st"
  by (induction ms arbitrary: st) (simp_all add: case_prod_beta bool.case_eq_if sum.case_eq_if option.case_eq_if Let_def)

lemma script_hist:
  "script (e\<lparr>historical_variance_tbl := h\<rparr>) st = script e st"
  by (simp add: script_def process_cumulative_def process_noncumulative_def case_prod_beta bool.case_eq_if sum.case_eq_if option.case_eq_if Let_def)

lemma script_trace:
  assumes "trace_all Q st" and "\<And>ev. \<not> reader_event ev \<Longrightarrow> Q ev"
  shows "trace_all Q (snd (script e st))"
proof -
  let ?p = "MsgProcessingAccounts (length (accounts_cum (opening_balance_tbl e)))
              (length (accounts_noncum (opening_balance_tbl e)))"
  let ?st1 = "snd (check_tables e required_tables st)"
  let ?st2 = "snd (db_exec e SelectOpeningBalance ?st1)"
  let ?st3 = "snd (process_cumulative e (print_msg ?p ?st2))"
  let ?st4 = "snd (process_noncumulative e ?st3)"
  have 1: "trace_all Q ?st1" using assms by (intro check_tables_trace) auto
  have 2: "trace_all Q ?st2" using 1 assms(2) by (intro trace_all_db_exec) auto
  have s2: "trace_all Q (print_msg MsgNoRelevantAccounts ?st2)"
    using 2 assms(2) by (intro trace_all_print_msg) auto
  have 3: "trace_all Q ?st3"
    using 2 assms(2) by (intro process_cumulative_trace trace_all_print_msg) auto
  have 4: "trace_all Q ?st4"
    using 3 assms(2) by (intro process_noncumulative_trace) auto
  have 5: "trace_all Q (print_msg MsgAllProcessed ?st4)"
    using 4 assms(2) by (intro trace_all_print_msg) auto
  show ?thesis
    using 1 2 s2 3 4 5
    by (simp add: script_def case_prod_beta sum.case_eq_if bool.case_eq_if)
qed

section \<open>Relations between the table before and after\<close>

text \<open>
  A relation between the table before and after that is reflexive, transitive and holds
  across one upsert of a row of the accounts \<open>A\<close>, holds across every function of the
  script that handles those accounts.
\<close>

lemma exec_inserts_rel:
  assumes refl: "\<And>t. R t t" and trans: "\<And>t1 t2 t3. R t1 t2 \<Longrightarrow> R t2 t3 \<Longrightarrow> R t1 t3"
    and step: "\<And>t r. r_account r \<in> A \<Longrightarrow> R t (insert_on_duplicate t r)"
    and rows: "\<forall>r\<in>set rows. r_account r \<in> A"
  shows "R (monthly_balance_tbl st) (monthly_balance_tbl (snd (exec_inserts e rows st)))"
  using rows
proof (induction rows arbitrary: st)
  case Nil
  show ?case by (simp add: refl)
next
  case (Cons r rows)
  let ?st1 = "snd (db_exec e (InsertMonthly r) st)"
  let ?st2 = "?st1\<lparr>monthly_balance_tbl := insert_on_duplicate (monthly_balance_tbl ?st1) r\<rparr>"
  have a: "R (monthly_balance_tbl st) (monthly_balance_tbl ?st2)"
    using step[of r "monthly_balance_tbl st"] Cons.prems by simp
  have b: "R (monthly_balance_tbl ?st2) (monthly_balance_tbl (snd (exec_inserts e rows ?st2)))"
    using Cons.prems by (intro Cons.IH) simp
  show ?case using trans[OF a b] refl
    by (simp add: case_prod_beta bool.case_eq_if)
qed

lemma upsert_monthly_rows_rel:
  assumes refl: "\<And>t. R t t" and trans: "\<And>t1 t2 t3. R t1 t2 \<Longrightarrow> R t2 t3 \<Longrightarrow> R t1 t3"
    and step: "\<And>t r. r_account r \<in> A \<Longrightarrow> R t (insert_on_duplicate t r)"
    and rows: "\<forall>r\<in>set rows. r_account r \<in> A"
  shows "R (monthly_balance_tbl st) (monthly_balance_tbl (snd (upsert_monthly_rows e rows st)))"
proof (cases "upsert_monthly_rows e rows st")
  case (Pair res st')
  show ?thesis
  proof (cases res)
    case (Inl x)
    with Pair upsert_monthly_rows_Inl[of e rows st x st'] show ?thesis by (simp add: refl)
  next
    case (Inr n)
    with Pair have "upsert_monthly_rows e rows st = (Inr n, st')" by simp
    then obtain st1 st2 where
      1: "st1 = snd (db_exec e StartTransaction st)" and
      2: "exec_inserts e rows st1 = (True, st2)" and
      3: "monthly_balance_tbl st' = monthly_balance_tbl st2"
      by (auto simp: upsert_monthly_rows_def db_exec_def
               dest!: upsert_except_result split: prod.splits bool.splits if_splits)
    have "R (monthly_balance_tbl st1) (monthly_balance_tbl (snd (exec_inserts e rows st1)))"
      by (rule exec_inserts_rel[OF refl trans step rows])
    then show ?thesis using 1 2 3 Pair by simp
  qed
qed

lemma make_rows_accounts: "\<forall>r\<in>set (make_rows ob accts mk vm). r_account r \<in> set accts"
  by (auto simp: make_rows_def)

lemma cum_month_rel:
  assumes refl: "\<And>t. R t t" and trans: "\<And>t1 t2 t3. R t1 t2 \<Longrightarrow> R t2 t3 \<Longrightarrow> R t1 t3"
    and step: "\<And>t r. r_account r \<in> set accts \<Longrightarrow> R t (insert_on_duplicate t r)"
  shows "R (monthly_balance_tbl st) (monthly_balance_tbl (snd (cum_month e accts i mk st)))"
proof -
  let ?c = "cumulative_voucher_map e (take (i + 1) MONTHS) accts Map.empty
              (print_msg (MsgProcessingCum mk) st)"
  have m1: "monthly_balance_tbl (snd ?c) = monthly_balance_tbl st"
    by (simp add: cumulative_voucher_map_monthly)
  have "\<And>vm. R (monthly_balance_tbl (snd ?c))
          (monthly_balance_tbl (snd (upsert_monthly_rows e
              (make_rows (opening_balance_tbl e) accts mk vm) (snd ?c))))"
    by (rule upsert_monthly_rows_rel[OF refl trans step make_rows_accounts])
  then show ?thesis using m1 refl
    by (simp add: cum_month_def case_prod_beta sum.case_eq_if)
qed

lemma cum_loop_rel:
  assumes refl: "\<And>t. R t t" and trans: "\<And>t1 t2 t3. R t1 t2 \<Longrightarrow> R t2 t3 \<Longrightarrow> R t1 t3"
    and step: "\<And>t r. r_account r \<in> set accts \<Longrightarrow> R t (insert_on_duplicate t r)"
  shows "R (monthly_balance_tbl st) (monthly_balance_tbl (snd (cum_loop e accts ims st)))"
proof (induction ims arbitrary: st)
  case Nil
  show ?case by (simp add: refl)
next
  case (Cons im ims)
  obtain i mk where im: "im = (i, mk)" by (cases im)
  let ?st1 = "snd (cum_month e accts i mk st)"
  have a: "R (monthly_balance_tbl st) (monthly_balance_tbl ?st1)"
    by (rule cum_month_rel[OF refl trans step])
  have b: "R (monthly_balance_tbl ?st1) (monthly_balance_tbl (snd (cum_loop e accts ims ?st1)))"
    by (rule Cons.IH)
  show ?case using a trans[OF a b] im
    by (simp add: case_prod_beta sum.case_eq_if)
qed

lemma noncum_month_rel:
  assumes refl: "\<And>t. R t t" and trans: "\<And>t1 t2 t3. R t1 t2 \<Longrightarrow> R t2 t3 \<Longrightarrow> R t1 t3"
    and step: "\<And>t r. r_account r \<in> set accts \<Longrightarrow> R t (insert_on_duplicate t r)"
  shows "R (monthly_balance_tbl st) (monthly_balance_tbl (snd (noncum_month e accts mk st)))"
proof -
  let ?f = "fetch_voucher_amounts_for_month e mk accts (print_msg (MsgProcessingNoncum mk) st)"
  have m1: "monthly_balance_tbl (snd ?f) = monthly_balance_tbl st"
    using fetch_voucher_amounts_for_month_result(1)[of e mk accts _ "fst ?f" "snd ?f"] by simp
  have "\<And>vm. R (monthly_balance_tbl (snd ?f))
          (monthly_balance_tbl (snd (upsert_monthly_rows e
              (make_rows (opening_balance_tbl e) accts mk vm) (snd ?f))))"
    by (rule upsert_monthly_rows_rel[OF refl trans step make_rows_accounts])
  then show ?thesis using m1 refl
    by (simp add: noncum_month_def case_prod_beta sum.case_eq_if)
qed

lemma noncum_loop_rel:
  assumes refl: "\<And>t. R t t" and trans: "\<And>t1 t2 t3. R t1 t2 \<Longrightarrow> R t2 t3 \<Longrightarrow> R t1 t3"
    and step: "\<And>t r. r_account r \<in> set accts \<Longrightarrow> R t (insert_on_duplicate t r)"
  shows "R (monthly_balance_tbl st) (monthly_balance_tbl (snd (noncum_loop e accts ms st)))"
proof (induction ms arbitrary: st)
  case Nil
  show ?case by (simp add: refl)
next
  case (Cons mk ms)
  let ?st1 = "snd (noncum_month e accts mk st)"
  have a: "R (monthly_balance_tbl st) (monthly_balance_tbl ?st1)"
    by (rule noncum_month_rel[OF refl trans step])
  have b: "R (monthly_balance_tbl ?st1) (monthly_balance_tbl (snd (noncum_loop e accts ms ?st1)))"
    by (rule Cons.IH)
  show ?case using a trans[OF a b]
    by (simp add: case_prod_beta sum.case_eq_if)
qed

lemma script_rel:
  assumes refl: "\<And>t. R t t" and trans: "\<And>t1 t2 t3. R t1 t2 \<Longrightarrow> R t2 t3 \<Longrightarrow> R t1 t3"
    and step: "\<And>t r. r_account r \<in> set (accounts_cum (opening_balance_tbl e))
                          \<union> set (accounts_noncum (opening_balance_tbl e))
                 \<Longrightarrow> R t (insert_on_duplicate t r)"
  shows "R (monthly_balance_tbl st) (monthly_balance_tbl (snd (script e st)))"
proof -
  let ?p = "MsgProcessingAccounts (length (accounts_cum (opening_balance_tbl e)))
              (length (accounts_noncum (opening_balance_tbl e)))"
  let ?st1 = "snd (check_tables e required_tables st)"
  let ?st2 = "snd (db_exec e SelectOpeningBalance ?st1)"
  let ?st3 = "snd (process_cumulative e (print_msg ?p ?st2))"
  let ?st4 = "snd (process_noncumulative e ?st3)"
  have m2: "monthly_balance_tbl ?st2 = monthly_balance_tbl st"
    by (simp add: check_tables_monthly)
  have a: "R (monthly_balance_tbl st) (monthly_balance_tbl ?st3)"
    using cum_loop_rel[of R "accounts_cum (opening_balance_tbl e)" "print_msg ?p ?st2" e
            "enumerate 0 MONTHS", OF refl trans step] m2 refl
    by (simp add: process_cumulative_def)
  have b: "R (monthly_balance_tbl ?st3) (monthly_balance_tbl ?st4)"
    using noncum_loop_rel[of R "accounts_noncum (opening_balance_tbl e)" ?st3 e MONTHS,
            OF refl trans step] refl
    by (simp add: process_noncumulative_def)
  show ?thesis using m2 a trans[OF a b] refl
    by (simp add: script_def case_prod_beta sum.case_eq_if bool.case_eq_if)
qed

section \<open>The two account groups\<close>

lemma run_untouched:
  assumes "c \<notin> set (accounts_cum (opening_balance_tbl e))"
    and "c \<notin> set (accounts_noncum (opening_balance_tbl e))"
  shows "monthly_balance_tbl (snd (run e mb)) (c, m) = mb (c, m)"
proof -
  let ?A = "set (accounts_cum (opening_balance_tbl e)) \<union> set (accounts_noncum (opening_balance_tbl e))"
  let ?R = "\<lambda>t t'. \<forall>a m. a \<notin> ?A \<longrightarrow> t' (a, m) = t (a, m)"
  have "?R (monthly_balance_tbl \<lparr>clock = 0, trace = [], monthly_balance_tbl = mb\<rparr>)
           (monthly_balance_tbl (snd (script e \<lparr>clock = 0, trace = [], monthly_balance_tbl = mb\<rparr>)))"
    by (rule script_rel) (auto simp: insert_on_duplicate_eq)
  then show ?thesis using assms by (simp add: run_def)
qed

lemma run_Finished_stored_both:
  assumes "fst (run e mb) = Finished"
    and "b \<in> set (accounts_noncum (opening_balance_tbl e))" and "i < 9"
  shows "stored_balance (snd (run e mb)) b (MONTHS ! i) =
           Some (get_or_0 (ob_map (opening_balance_tbl e)) b
                 + (if voucher_error_printed (snd (run e mb)) (MONTHS ! i) then 0
                    else voucher_sum_q (table_of_index e i) b 2025 (i + 1)))"
  using run_Finished_stored_noncum[OF assms] by (simp add: voucher_sum_q_rows_of_month)

lemma example_sums_5000:
  "voucher_sum_q (table_of_index example_env 0) ''5000'' 2025 1 = 10"
  "voucher_sum_q (table_of_index example_env 1) ''5000'' 2025 2 = 4"
  by (simp_all add: example_env_def example_vouchers_def table_of_index_def voucher_sum_q_def
        voucher_where_def voucher_not_in_markers_def marker_vouchers_def sql_sum_def
        coalesce0_def jan3_def feb3_def)

lemma example_no_failures: "\<forall>n. \<not> fails example_env n"
  by (simp add: example_env_def)

lemma example_tables: "set required_tables \<subseteq> set (tables example_env)"
  by (simp add: example_env_def required_tables_def OPENING_BALANCE_TABLE_def
        HISTORICAL_TABLE_def MONTHLY_TABLE_def)

lemma example_process_cumulative:
  "process_cumulative example_env example_state
     = (Inr (), snd (process_cumulative example_env example_state))"
  using process_cumulative_ok[OF example_no_failures, of example_state]
  by (simp add: prod_eq_iff)

lemma MONTHS_1: "MONTHS ! 1 = ''2025-02''" "MONTHS ! Suc 0 = ''2025-02''"
  by (simp_all add: MONTHS_def)

lemma example_feb_unprinted:
  "\<not> voucher_error_printed (snd (run example_env mb)) ''2025-02''"
  by (rule run_ok_unprinted[OF example_no_failures]) (simp add: MONTHS_def)

text \<open>
  C3, as stated, fails: the account 5000 of the small database, whose type
  \<^verbatim>\<open>Asset Income\<close> names both groups, is in both account lists. The cumulative loop
  writes its February balance 100 + (10 + 4), and the non-cumulative loop, which runs
  afterwards, replaces it by 100 + 4.
\<close>

theorem dual_match_processed_twice_counterexample:
  "''5000'' \<in> set (accounts_cum (opening_balance_tbl example_env))
   \<and> ''5000'' \<in> set (accounts_noncum (opening_balance_tbl example_env))
   \<and> stored_balance (snd (process_cumulative example_env example_state)) ''5000'' ''2025-02''
       = Some 114
   \<and> fst (run example_env example_monthly) = Finished
   \<and> stored_balance (snd (run example_env example_monthly)) ''5000'' ''2025-02'' = Some 104"
proof -
  have c: "''5000'' \<in> set (accounts_cum (opening_balance_tbl example_env))"
    by (simp add: example_accounts_cum)
  have n: "''5000'' \<in> set (accounts_noncum (opening_balance_tbl example_env))"
    by (simp add: example_accounts_noncum)
  have s: "cum_total example_env ''5000'' 1 = 14"
    using example_sums_5000 by (simp add: cum_total_sum numeral_2_eq_2)
  have a: "stored_balance (snd (process_cumulative example_env example_state)) ''5000'' ''2025-02''
             = Some 114"
    using process_cumulative_stored[OF example_process_cumulative c, of 1] s
    by (simp add: MONTHS_1 example_ob_map)
  have b: "stored_balance (snd (run example_env example_monthly)) ''5000'' ''2025-02'' = Some 104"
    using run_Finished_stored_both[OF example_run_Finished n, of 1 example_monthly]
      example_feb_unprinted example_sums_5000
    by (simp add: MONTHS_1 example_ob_map numeral_2_eq_2)
  from c n a b example_run_Finished show ?thesis by simp
qed

text \<open>
  C3, amended. An account is in each group whose keyword set the normalized type of one
  of its rows matches. A row matching both keyword sets puts its account in both lists;
  after a run that reaches its last line such an account holds the balance of the
  non-cumulative loop (opening balance plus the delta of the month alone), which ran
  last. An account in neither list is left out: no row of \<^verbatim>\<open>monthly_balance\<close> with its
  code is written or changed, whatever the run does, and the run of a database in which
  no statement raises ends with status 0 whether or not such accounts exist.
\<close>

theorem accounts_processed_under_every_matching_group:
  "(a \<in> set (accounts_cum rows) \<longleftrightarrow> (\<exists>r\<in>set rows. ob_account r = a \<and> mask_cum r))
   \<and> (a \<in> set (accounts_noncum rows) \<longleftrightarrow> (\<exists>r\<in>set rows. ob_account r = a \<and> mask_noncum r))
   \<and> (r \<in> set rows \<and> mask_cum r \<and> mask_noncum r \<longrightarrow>
        ob_account r \<in> set (accounts_cum rows) \<and> ob_account r \<in> set (accounts_noncum rows))
   \<and> (fst (run e mb) = Finished
        \<and> b \<in> set (accounts_cum (opening_balance_tbl e))
        \<and> b \<in> set (accounts_noncum (opening_balance_tbl e)) \<and> i < 9 \<longrightarrow>
        stored_balance (snd (run e mb)) b (MONTHS ! i) =
          Some (get_or_0 (ob_map (opening_balance_tbl e)) b
                + (if voucher_error_printed (snd (run e mb)) (MONTHS ! i) then 0
                   else voucher_sum_q (table_of_index e i) b 2025 (i + 1))))
   \<and> (c \<notin> set (accounts_cum (opening_balance_tbl e))
        \<and> c \<notin> set (accounts_noncum (opening_balance_tbl e)) \<longrightarrow>
        monthly_balance_tbl (snd (run e mb)) (c, m) = mb (c, m))
   \<and> ((\<forall>n. \<not> fails e n) \<and> set required_tables \<subseteq> set (tables e) \<longrightarrow>
        exit_status (fst (run e mb)) = 0)"
proof -
  have 1: "a \<in> set (accounts_cum rows) \<longleftrightarrow> (\<exists>r\<in>set rows. ob_account r = a \<and> mask_cum r)"
    by (auto simp: accounts_cum_def)
  have 2: "a \<in> set (accounts_noncum rows) \<longleftrightarrow> (\<exists>r\<in>set rows. ob_account r = a \<and> mask_noncum r)"
    by (auto simp: accounts_noncum_def)
  have 3: "r \<in> set rows \<and> mask_cum r \<and> mask_noncum r \<longrightarrow>
        ob_account r \<in> set (accounts_cum rows) \<and> ob_account r \<in> set (accounts_noncum rows)"
    by (auto simp: accounts_cum_def accounts_noncum_def)
  have 4: "fst (run e mb) = Finished
        \<and> b \<in> set (accounts_cum (opening_balance_tbl e))
        \<and> b \<in> set (accounts_noncum (opening_balance_tbl e)) \<and> i < 9 \<longrightarrow>
        stored_balance (snd (run e mb)) b (MONTHS ! i) =
          Some (get_or_0 (ob_map (opening_balance_tbl e)) b
                + (if voucher_error_printed (snd (run e mb)) (MONTHS ! i) then 0
                   else voucher_sum_q (table_of_index e i) b 2025 (i + 1)))"
    using run_Finished_stored_both[of e mb b i] by blast
  have 5: "c \<notin> set (accounts_cum (opening_balance_tbl e))
        \<and> c \<notin> set (accounts_noncum (opening_balance_tbl e)) \<longrightarrow>
        monthly_balance_tbl (snd (run e mb)) (c, m) = mb (c, m)"
    using run_untouched[of c e mb m] by blast
  have 6: "(\<forall>n. \<not> fails e n) \<and> set required_tables \<subseteq> set (tables e) \<longrightarrow>
        exit_status (fst (run e mb)) = 0"
    using run_ok[of e mb] by auto
  from 1 2 3 4 5 6 show ?thesis by blast
qed

theorem accounts_processed_under_every_matching_group_witness:
  "\<lparr>ob_account = ''5000'', ob_opening_balance = Some 100,
     ob_account_type = Some ''Asset Income'', ob_description = None\<rparr>
     \<in> set (opening_balance_tbl example_env)
   \<and> mask_cum \<lparr>ob_account = ''5000'', ob_opening_balance = Some 100,
               ob_account_type = Some ''Asset Income'', ob_description = None\<rparr>
   \<and> mask_noncum \<lparr>ob_account = ''5000'', ob_opening_balance = Some 100,
                  ob_account_type = Some ''Asset Income'', ob_description = None\<rparr>
   \<and> ''5000'' \<in> set (accounts_cum (opening_balance_tbl example_env))
   \<and> ''5000'' \<in> set (accounts_noncum (opening_balance_tbl example_env))
   \<and> fst (run example_env example_monthly) = Finished \<and> (1::nat) < 9
   \<and> stored_balance (snd (run example_env example_monthly)) ''5000'' ''2025-02'' = Some 104
   \<and> ''9000'' \<notin> set (accounts_cum (opening_balance_tbl example_env))
   \<and> ''9000'' \<notin> set (accounts_noncum (opening_balance_tbl example_env))
   \<and> monthly_balance_tbl (snd (run example_env example_monthly)) (''9000'', ''2025-02'') = None
   \<and> (\<forall>n. \<not> fails example_env n) \<and> set required_tables \<subseteq> set (tables example_env)
   \<and> exit_status (fst (run example_env example_monthly)) = 0"
proof -
  let ?r = "\<lparr>ob_account = ''5000'', ob_opening_balance = Some 100,
              ob_account_type = Some ''Asset Income'', ob_description = None\<rparr>"
  have r: "?r \<in> set (opening_balance_tbl example_env)"
    by (simp add: example_env_def example_opening_balance_def)
  have mc: "mask_cum ?r" by code_simp
  have mn: "mask_noncum ?r" by code_simp
  have n9: "''9000'' \<notin> set (accounts_cum (opening_balance_tbl example_env))"
    "''9000'' \<notin> set (accounts_noncum (opening_balance_tbl example_env))"
    by (simp_all add: example_accounts_cum example_accounts_noncum)
  have l: "(1::nat) < 9" by simp
  have e9: "example_monthly (''9000'', ''2025-02'') = None"
    by (simp add: example_monthly_def)
  note t = accounts_processed_under_every_matching_group[of "''5000''"
      "opening_balance_tbl example_env" ?r example_env example_monthly "''5000''" 1 "''9000''"
      "''2025-02''"]
  have in_both: "''5000'' \<in> set (accounts_cum (opening_balance_tbl example_env))
                 \<and> ''5000'' \<in> set (accounts_noncum (opening_balance_tbl example_env))"
  proof -
    have "ob_account ?r \<in> set (accounts_cum (opening_balance_tbl example_env))
          \<and> ob_account ?r \<in> set (accounts_noncum (opening_balance_tbl example_env))"
      using t r mc mn by blast
    then show ?thesis by simp
  qed
  have bal: "stored_balance (snd (run example_env example_monthly)) ''5000'' ''2025-02'' = Some 104"
  proof -
    have "stored_balance (snd (run example_env example_monthly)) ''5000'' (MONTHS ! 1) =
          Some (get_or_0 (ob_map (opening_balance_tbl example_env)) ''5000''
                + (if voucher_error_printed (snd (run example_env example_monthly)) (MONTHS ! 1)
                   then 0
                   else voucher_sum_q (table_of_index example_env 1) ''5000'' 2025 (1 + 1)))"
      using t in_both example_run_Finished[of example_monthly] l by blast
    then show ?thesis
      using example_feb_unprinted example_sums_5000
      by (simp add: MONTHS_1 example_ob_map numeral_2_eq_2)
  qed
  have un: "monthly_balance_tbl (snd (run example_env example_monthly)) (''9000'', ''2025-02'') = None"
  proof -
    have "monthly_balance_tbl (snd (run example_env example_monthly)) (''9000'', ''2025-02'')
            = example_monthly (''9000'', ''2025-02'')"
      using t n9 by blast
    then show ?thesis using e9 by simp
  qed
  have ex: "exit_status (fst (run example_env example_monthly)) = 0"
    using t example_no_failures example_tables by blast
  from r mc mn in_both example_run_Finished bal n9 un example_no_failures example_tables ex
  show ?thesis by simp
qed

section \<open>The upsert and the stored metadata\<close>

lemma run_keeps_metadata:
  assumes "mb k = Some old"
  shows "\<exists>new. monthly_balance_tbl (snd (run e mb)) k = Some new
           \<and> (\<forall>d. mb_description old = Some d \<and> d \<noteq> [] \<longrightarrow> mb_description new = Some d)
           \<and> (\<forall>ty. mb_account_type old = Some ty \<and> ty \<noteq> [] \<longrightarrow> mb_account_type new = Some ty)"
proof -
  let ?R = "\<lambda>t t'. \<forall>k old. t k = Some old \<longrightarrow>
      (\<exists>new. t' k = Some new
         \<and> (\<forall>d. mb_description old = Some d \<and> d \<noteq> [] \<longrightarrow> mb_description new = Some d)
         \<and> (\<forall>ty. mb_account_type old = Some ty \<and> ty \<noteq> [] \<longrightarrow> mb_account_type new = Some ty))"
  let ?st = "\<lparr>clock = 0, trace = [], monthly_balance_tbl = mb\<rparr>"
  have "?R (monthly_balance_tbl ?st) (monthly_balance_tbl (snd (script e ?st)))"
  proof (rule script_rel)
    show "\<And>t. ?R t t" by simp
  next
    fix t1 t2 t3 :: monthly_table
    assume a: "?R t1 t2" and b: "?R t2 t3"
    show "?R t1 t3"
    proof (intro allI impI)
      fix k old assume "t1 k = Some old"
      with a obtain mid where m: "t2 k = Some mid"
        and md: "\<forall>d. mb_description old = Some d \<and> d \<noteq> [] \<longrightarrow> mb_description mid = Some d"
        and mt: "\<forall>ty. mb_account_type old = Some ty \<and> ty \<noteq> [] \<longrightarrow> mb_account_type mid = Some ty"
        by blast
      from b m obtain new where n: "t3 k = Some new"
        and nd: "\<forall>d. mb_description mid = Some d \<and> d \<noteq> [] \<longrightarrow> mb_description new = Some d"
        and nt: "\<forall>ty. mb_account_type mid = Some ty \<and> ty \<noteq> [] \<longrightarrow> mb_account_type new = Some ty"
        by blast
      from n md mt nd nt
      show "\<exists>new. t3 k = Some new
         \<and> (\<forall>d. mb_description old = Some d \<and> d \<noteq> [] \<longrightarrow> mb_description new = Some d)
         \<and> (\<forall>ty. mb_account_type old = Some ty \<and> ty \<noteq> [] \<longrightarrow> mb_account_type new = Some ty)"
        by auto
    qed
  next
    fix t :: monthly_table and r :: upsert_row
    show "?R t (insert_on_duplicate t r)"
      by (auto simp: insert_on_duplicate_eq merged_row_def ifnull_def nullif_empty_def)
  qed
  then have "\<forall>k old. mb k = Some old \<longrightarrow>
      (\<exists>new. monthly_balance_tbl (snd (run e mb)) k = Some new
         \<and> (\<forall>d. mb_description old = Some d \<and> d \<noteq> [] \<longrightarrow> mb_description new = Some d)
         \<and> (\<forall>ty. mb_account_type old = Some ty \<and> ty \<noteq> [] \<longrightarrow> mb_account_type new = Some ty))"
    by (simp only: run_def state.simps)
  with assms show ?thesis by blast
qed

lemma run_Finished_last_line:
  assumes "fst (run e mb) = Finished"
  shows "Print MsgAllProcessed \<in> set (trace (snd (run e mb)))"
proof -
  have "script e \<lparr>clock = 0, trace = [], monthly_balance_tbl = mb\<rparr> = (Finished, snd (run e mb))"
    using assms by (simp add: run_def prod_eq_iff)
  then show ?thesis
    by (rule script_Finished_steps) (simp add: print_msg_def)
qed

lemma run_no_reader_event:
  "ev \<in> set (trace (snd (run e mb))) \<Longrightarrow> \<not> reader_event ev"
proof -
  have "trace_all (\<lambda>ev. \<not> reader_event ev)
          (snd (script e \<lparr>clock = 0, trace = [], monthly_balance_tbl = mb\<rparr>))"
    by (rule script_trace) (simp_all add: trace_all_def)
  then show "ev \<in> set (trace (snd (run e mb))) \<Longrightarrow> \<not> reader_event ev"
    by (simp add: trace_all_def run_def)
qed

lemma run_hist: "run (e\<lparr>historical_variance_tbl := h\<rparr>) mb = run e mb"
  by (simp add: run_def script_hist)

text \<open>
  C10. Two runs on databases that differ only in the rows of \<^verbatim>\<open>historical_variance\<close>
  (with the same statements raising) end the same way and leave the same
  \<^verbatim>\<open>monthly_balance\<close>, row for row, after the same statements and printed lines. No
  statement or error line of \<^verbatim>\<open>fetch_historical_for_month\<close> occurs in a run, nor one of
  \<^verbatim>\<open>fetch_monthly_for_month\<close>: every delta comes from the voucher queries.
\<close>

theorem run_independent_of_historical_variance:
  "run (e\<lparr>historical_variance_tbl := h\<rparr>) mb = run e mb
   \<and> (\<forall>ev\<in>set (trace (snd (run e mb))). \<not> reader_event ev)"
  using run_hist[where e = e and h = h and mb = mb] run_no_reader_event[where e = e and mb = mb]
  by blast

theorem run_independent_of_historical_variance_witness:
  "Print MsgAllProcessed \<in> set (trace (snd (run example_env example_monthly)))
   \<and> \<not> reader_event (Print MsgAllProcessed)
   \<and> historical_variance_tbl (example_env\<lparr>historical_variance_tbl := []\<rparr>)
       \<noteq> historical_variance_tbl example_env
   \<and> run (example_env\<lparr>historical_variance_tbl := []\<rparr>) example_monthly
       = run example_env example_monthly"
proof -
  have p: "Print MsgAllProcessed \<in> set (trace (snd (run example_env example_monthly)))"
    by (rule run_Finished_last_line[OF example_run_Finished])
  note t = run_independent_of_historical_variance[where e = example_env and h = "[]"
      and mb = example_monthly]
  from t p have "\<not> reader_event (Print MsgAllProcessed)" by blast
  moreover have "historical_variance_tbl (example_env\<lparr>historical_variance_tbl := []\<rparr>)
       \<noteq> historical_variance_tbl example_env"
    by (simp add: example_env_def)
  ultimately show ?thesis using t p by simp
qed

section \<open>The source of the deltas\<close>

lemma str_le_nth_MONTHS: "i < 7 \<Longrightarrow> str_le (MONTHS ! i) ''2025-07''"
proof -
  assume "i < 7"
  then consider "i = 0" | "i = 1" | "i = 2" | "i = 3" | "i = 4" | "i = 5" | "i = 6" by linarith
  then show ?thesis by cases (simp_all add: MONTHS_def)
qed

lemma fetch_historical_for_month_smoothened:
  assumes "str_le mk ''2025-07''" and "\<not> fails e (clock st)"
  shows "fst (fetch_historical_for_month e mk accts True st) =
           Inr (dict_zip (map (\<lambda>r. (h_account r, coalesce0 (h_smoothened_amount r)))
                  (filter (\<lambda>r. h_month_key r = mk \<and> h_account r \<in> set accts)
                     (historical_variance_tbl e))))"
  using assms by (simp add: fetch_historical_for_month_def db_exec_def)

lemma fetch_historical_for_month_journal:
  assumes "str_le mk ''2025-07''" and "\<not> fails e (clock st)"
  shows "fst (fetch_historical_for_month e mk accts False st) =
           Inr (dict_zip (map (\<lambda>r. (h_account r, coalesce0 (h_journal_amount r)))
                  (filter (\<lambda>r. h_month_key r = mk \<and> h_account r \<in> set accts)
                     (historical_variance_tbl e))))"
  using assms by (simp add: fetch_historical_for_month_def db_exec_def)

lemma sum_vouchers_tbl:
  assumes "i < 7"
  shows "(\<Sum>k\<le>i. voucher_sum_q (table_of_index e k) a 2025 (k + 1))
           = (\<Sum>k\<le>i. voucher_sum_q (vouchers_tbl e) a 2025 (k + 1))"
  using assms by (intro sum.cong) (auto simp: table_of_index_def)

lemma example_sums_4000:
  "voucher_sum_q (vouchers_tbl example_env) ''4000'' 2025 1 = 7"
  "voucher_sum_q (vouchers_tbl example_env) ''1000'' 2025 1 = 50"
  by (simp_all add: example_env_def example_vouchers_def voucher_sum_q_def
        voucher_where_def voucher_not_in_markers_def marker_vouchers_def sql_sum_def
        coalesce0_def jan3_def feb3_def)

lemma example_historical_january:
  "projr (fst (fetch_historical_for_month example_env ''2025-01'' [''1000''] True example_state))
     ''1000'' = Some 500"
  "projr (fst (fetch_historical_for_month example_env ''2025-01'' [''1000''] False example_state))
     ''1000'' = Some 300"
  by (simp_all add: fetch_historical_for_month_def db_exec_def example_env_def example_state_def
        dict_zip_def coalesce0_def)

lemma MONTHS_0: "MONTHS ! 0 = ''2025-01''"
  by (simp add: MONTHS_def)

lemma example_jan_unprinted:
  "\<not> voucher_error_printed (snd (run example_env mb)) ''2025-01''"
  by (rule run_ok_unprinted[OF example_no_failures]) (simp add: MONTHS_def)

text \<open>
  C2, as stated, fails. In the small database \<^verbatim>\<open>historical_variance\<close> holds a smoothed
  amount of 500 for the asset account 1000 in 2025-01, and that is what
  \<^verbatim>\<open>fetch_historical_for_month\<close> returns for it; the balance the run stores for the
  month is the opening balance 1000 plus the voucher sum 50.
\<close>

theorem historical_delta_not_used_counterexample:
  "str_le ''2025-01'' ''2025-07''
   \<and> projr (fst (fetch_historical_for_month example_env ''2025-01'' [''1000''] True
                  example_state)) ''1000'' = Some 500
   \<and> get_or_0 (ob_map (opening_balance_tbl example_env)) ''1000'' = 1000
   \<and> fst (run example_env example_monthly) = Finished
   \<and> stored_balance (snd (run example_env example_monthly)) ''1000'' ''2025-01'' = Some 1050
   \<and> stored_balance (snd (run example_env example_monthly)) ''1000'' ''2025-01''
       \<noteq> Some (1000 + 500)"
proof -
  have c: "''1000'' \<in> set (accounts_cum (opening_balance_tbl example_env))"
    "''1000'' \<notin> set (accounts_noncum (opening_balance_tbl example_env))"
    by (simp_all add: example_accounts_cum example_accounts_noncum)
  have "stored_balance (snd (run example_env example_monthly)) ''1000'' ''2025-01'' = Some 1050"
    using run_Finished_stored_cum[OF example_run_Finished c, of 0 example_monthly]
      example_sums(1)
    by (simp add: cum_total_sum MONTHS_0 example_ob_map)
  then show ?thesis
    using example_historical_january(1) example_run_Finished
    by (simp add: example_ob_map)
qed

section \<open>Statements that raise\<close>

text \<open>
  Where a function returns normally, the statements it sent all succeeded, the grouped
  voucher fetch apart.
\<close>

lemma trace_all_snoc:
  "trace_all Q (st\<lparr>clock := c, trace := trace st @ [ev]\<rparr>) = (trace_all Q st \<and> Q ev)"
  by (auto simp: trace_all_def)

lemma check_tables_clean:
  "check_tables e ts st = (Inr u, st') \<Longrightarrow> trace_all (\<lambda>ev. \<not> fatal_failure ev) st
   \<Longrightarrow> trace_all (\<lambda>ev. \<not> fatal_failure ev) st'"
proof (induction ts arbitrary: st)
  case Nil
  then show ?case by simp
next
  case (Cons t ts)
  from Cons.prems(1) obtain st1 where
    1: "db_exec e (CountTable t) st = (True, st1)" and 2: "check_tables e ts st1 = (Inr u, st')"
    by (auto split: prod.splits bool.splits if_splits)
  from 1 Cons.prems(2) have "trace_all (\<lambda>ev. \<not> fatal_failure ev) st1"
    by (auto simp: db_exec_def trace_all_def)
  from Cons.IH[OF 2 this] show ?case .
qed

lemma sum_months_clean:
  "sum_months e acct ms t st = (Inr v, st') \<Longrightarrow> trace_all (\<lambda>ev. \<not> fatal_failure ev) st
   \<Longrightarrow> trace_all (\<lambda>ev. \<not> fatal_failure ev) st'"
proof (induction ms arbitrary: t st)
  case Nil
  then show ?case by simp
next
  case (Cons m ms)
  from Cons.prems(1) obtain y mo st1 t1 where
    1: "db_exec e (SelectVoucherSum (voucher_table_name m) acct y mo) st = (True, st1)" and
    2: "sum_months e acct ms t1 st1 = (Inr v, st')"
    by (auto simp: Let_def split: option.splits prod.splits bool.splits if_splits)
  from 1 Cons.prems(2) have "trace_all (\<lambda>ev. \<not> fatal_failure ev) st1"
    by (auto simp: db_exec_def trace_all_def)
  from Cons.IH[OF 2 this] show ?case .
qed

lemma cumulative_voucher_map_clean:
  "cumulative_voucher_map e ms accts cvm st = (Inr v, st') \<Longrightarrow>
   trace_all (\<lambda>ev. \<not> fatal_failure ev) st \<Longrightarrow> trace_all (\<lambda>ev. \<not> fatal_failure ev) st'"
proof (induction accts arbitrary: cvm st)
  case Nil
  then show ?case by simp
next
  case (Cons acct accts)
  from Cons.prems(1) obtain t st1 where
    1: "sum_months e acct ms 0 st = (Inr t, st1)" and
    2: "cumulative_voucher_map e ms accts (cvm(acct \<mapsto> t)) st1 = (Inr v, st')"
    by (auto split: prod.splits sum.splits)
  from Cons.IH[OF 2 sum_months_clean[OF 1 Cons.prems(2)]] show ?case .
qed

lemma exec_inserts_clean:
  "exec_inserts e rows st = (True, st') \<Longrightarrow> trace_all (\<lambda>ev. \<not> fatal_failure ev) st
   \<Longrightarrow> trace_all (\<lambda>ev. \<not> fatal_failure ev) st'"
proof (induction rows arbitrary: st)
  case Nil
  then show ?case by simp
next
  case (Cons r rows)
  from Cons.prems(1) obtain st1 where
    1: "db_exec e (InsertMonthly r) st = (True, st1)" and
    2: "exec_inserts e rows
          (st1\<lparr>monthly_balance_tbl := insert_on_duplicate (monthly_balance_tbl st1) r\<rparr>) = (True, st')"
    by (auto split: prod.splits bool.splits if_splits)
  from 1 Cons.prems(2) have "trace_all (\<lambda>ev. \<not> fatal_failure ev) st1"
    by (auto simp: db_exec_def trace_all_def)
  then have "trace_all (\<lambda>ev. \<not> fatal_failure ev)
      (st1\<lparr>monthly_balance_tbl := insert_on_duplicate (monthly_balance_tbl st1) r\<rparr>)"
    by simp
  from Cons.IH[OF 2 this] show ?case .
qed

lemma upsert_monthly_rows_clean:
  assumes "upsert_monthly_rows e rows st = (Inr n, st')"
    and "trace_all (\<lambda>ev. \<not> fatal_failure ev) st"
  shows "trace_all (\<lambda>ev. \<not> fatal_failure ev) st'"
proof (cases "rows = []")
  case True
  with assms show ?thesis by (simp add: upsert_monthly_rows_def)
next
  case False
  with assms(1) obtain st1 st2 where
    1: "db_exec e StartTransaction st = (True, st1)" and
    2: "exec_inserts e rows st1 = (True, st2)" and
    3: "db_exec e Commit st2 = (True, st')"
    by (auto simp: upsert_monthly_rows_def dest!: upsert_except_result
             split: prod.splits bool.splits if_splits)
  from 1 assms(2) have "trace_all (\<lambda>ev. \<not> fatal_failure ev) st1"
    by (auto simp: db_exec_def trace_all_def)
  from exec_inserts_clean[OF 2 this] 3 show ?thesis
    by (auto simp: db_exec_def trace_all_def)
qed

lemma cum_month_clean:
  assumes "cum_month e accts i mk st = (Inr u, st')"
    and "trace_all (\<lambda>ev. \<not> fatal_failure ev) st"
  shows "trace_all (\<lambda>ev. \<not> fatal_failure ev) st'"
proof -
  from assms(1) obtain cvm st1 n st2 where
    c: "cumulative_voucher_map e (take (i + 1) MONTHS) accts Map.empty
          (print_msg (MsgProcessingCum mk) st) = (Inr cvm, st1)" and
    u: "upsert_monthly_rows e (make_rows (opening_balance_tbl e) accts mk cvm) st1 = (Inr n, st2)" and
    f: "st' = print_msg (MsgUpsertedCum n mk) st2"
    by (auto simp: cum_month_def split: prod.splits sum.splits)
  have "trace_all (\<lambda>ev. \<not> fatal_failure ev) (print_msg (MsgProcessingCum mk) st)"
    using assms(2) by (intro trace_all_print_msg) auto
  from upsert_monthly_rows_clean[OF u cumulative_voucher_map_clean[OF c this]] f
  show ?thesis by (auto intro!: trace_all_print_msg)
qed

lemma cum_loop_clean:
  "cum_loop e accts ims st = (Inr u, st') \<Longrightarrow> trace_all (\<lambda>ev. \<not> fatal_failure ev) st
   \<Longrightarrow> trace_all (\<lambda>ev. \<not> fatal_failure ev) st'"
proof (induction ims arbitrary: st)
  case Nil
  then show ?case by simp
next
  case (Cons im ims)
  obtain i mk where im: "im = (i, mk)" by (cases im)
  from Cons.prems(1) im obtain u1 st1 where
    1: "cum_month e accts i mk st = (Inr u1, st1)" and 2: "cum_loop e accts ims st1 = (Inr u, st')"
    by (auto split: prod.splits sum.splits)
  from Cons.IH[OF 2 cum_month_clean[OF 1 Cons.prems(2)]] show ?case .
qed

lemma fetch_voucher_amounts_for_month_clean:
  "trace_all (\<lambda>ev. \<not> fatal_failure ev) st \<Longrightarrow>
   trace_all (\<lambda>ev. \<not> fatal_failure ev) (snd (fetch_voucher_amounts_for_month e mk accts st))"
  by (intro fetch_voucher_amounts_for_month_trace) (auto, case_tac ok, auto)

lemma noncum_month_clean:
  assumes "noncum_month e accts mk st = (Inr u, st')"
    and "trace_all (\<lambda>ev. \<not> fatal_failure ev) st"
  shows "trace_all (\<lambda>ev. \<not> fatal_failure ev) st'"
proof -
  let ?st0 = "print_msg (MsgProcessingNoncum mk) st"
  from assms(1) obtain vm st1 n st2 where
    f: "fetch_voucher_amounts_for_month e mk accts ?st0 = (vm, st1)" and
    u: "upsert_monthly_rows e (make_rows (opening_balance_tbl e) accts mk vm) st1 = (Inr n, st2)" and
    s: "st' = print_msg (MsgUpsertedNoncum n mk) st2"
    by (auto simp: noncum_month_def split: prod.splits sum.splits)
  have "trace_all (\<lambda>ev. \<not> fatal_failure ev) ?st0"
    using assms(2) by (intro trace_all_print_msg) auto
  from fetch_voucher_amounts_for_month_clean[OF this, of e mk accts] f
  have "trace_all (\<lambda>ev. \<not> fatal_failure ev) st1" by simp
  from upsert_monthly_rows_clean[OF u this] s
  show ?thesis by (auto intro!: trace_all_print_msg)
qed

lemma noncum_loop_clean:
  "noncum_loop e accts ms st = (Inr u, st') \<Longrightarrow> trace_all (\<lambda>ev. \<not> fatal_failure ev) st
   \<Longrightarrow> trace_all (\<lambda>ev. \<not> fatal_failure ev) st'"
proof (induction ms arbitrary: st)
  case Nil
  then show ?case by simp
next
  case (Cons mk ms)
  from Cons.prems(1) obtain u1 st1 where
    1: "noncum_month e accts mk st = (Inr u1, st1)" and 2: "noncum_loop e accts ms st1 = (Inr u, st')"
    by (auto split: prod.splits sum.splits)
  from Cons.IH[OF 2 noncum_month_clean[OF 1 Cons.prems(2)]] show ?case .
qed

lemma script_status_0_steps:
  assumes "exit_status (fst (script e st)) = 0"
  obtains
    (no_accounts) st1 st2 where
      "check_tables e required_tables st = (Inr (), st1)"
      "db_exec e SelectOpeningBalance st1 = (True, st2)"
      "snd (script e st) = print_msg MsgNoRelevantAccounts st2"
  | (finished) "fst (script e st) = Finished"
proof (cases "fst (script e st) = Finished")
  case True
  then show ?thesis by (rule finished)
next
  case False
  obtain r st1 where c: "check_tables e required_tables st = (r, st1)"
    by (cases "check_tables e required_tables st")
  obtain ok st2 where o: "db_exec e SelectOpeningBalance st1 = (ok, st2)"
    by (cases "db_exec e SelectOpeningBalance st1")
  let ?p = "print_msg (MsgProcessingAccounts (length (accounts_cum (opening_balance_tbl e)))
              (length (accounts_noncum (opening_balance_tbl e)))) st2"
  obtain r3 st3 where pc: "process_cumulative e ?p = (r3, st3)"
    by (cases "process_cumulative e ?p")
  obtain r4 st4 where pn: "process_noncumulative e st3 = (r4, st4)"
    by (cases "process_noncumulative e st3")
  have "r = Inr () \<and> ok \<and> snd (script e st) = print_msg MsgNoRelevantAccounts st2"
    using assms False c o pc pn
      check_tables_Inl[of e required_tables st _ st1]
      process_cumulative_Inl[of e ?p _ st3] process_noncumulative_Inl[of e st3 _ st4]
    by (auto simp: script_def split: sum.splits bool.splits if_splits)
  with c o show ?thesis by (intro no_accounts) auto
qed

lemma script_clean:
  assumes "exit_status (fst (script e st)) = 0"
    and "trace_all (\<lambda>ev. \<not> fatal_failure ev) st"
  shows "trace_all (\<lambda>ev. \<not> fatal_failure ev) (snd (script e st))"
  using assms(1)
proof (cases rule: script_status_0_steps)
  case (no_accounts st1 st2)
  have "trace_all (\<lambda>ev. \<not> fatal_failure ev) st1"
    by (rule check_tables_clean[OF no_accounts(1) assms(2)])
  with no_accounts(2) have "trace_all (\<lambda>ev. \<not> fatal_failure ev) st2"
    by (auto simp: db_exec_def trace_all_def)
  with no_accounts(3) show ?thesis by (auto intro!: trace_all_print_msg)
next
  case finished
  let ?p = "MsgProcessingAccounts (length (accounts_cum (opening_balance_tbl e)))
              (length (accounts_noncum (opening_balance_tbl e)))"
  from finished have "script e st = (Finished, snd (script e st))" by (simp add: prod_eq_iff)
  then obtain st1 st2 st3 st4 where
    c: "check_tables e required_tables st = (Inr (), st1)" and
    o: "db_exec e SelectOpeningBalance st1 = (True, st2)" and
    pc: "process_cumulative e (print_msg ?p st2) = (Inr (), st3)" and
    pn: "process_noncumulative e st3 = (Inr (), st4)" and
    f: "snd (script e st) = print_msg MsgAllProcessed st4"
    by (rule script_Finished_steps)
  have 1: "trace_all (\<lambda>ev. \<not> fatal_failure ev) st1"
    by (rule check_tables_clean[OF c assms(2)])
  with o have 2: "trace_all (\<lambda>ev. \<not> fatal_failure ev) (print_msg ?p st2)"
    by (auto simp: db_exec_def trace_all_def print_msg_def)
  have 3: "trace_all (\<lambda>ev. \<not> fatal_failure ev) st3"
    using pc 2 by (auto simp: process_cumulative_def dest: cum_loop_clean split: if_splits)
  have 4: "trace_all (\<lambda>ev. \<not> fatal_failure ev) st4"
    using pn 3 by (auto simp: process_noncumulative_def dest: noncum_loop_clean split: if_splits)
  with f show ?thesis by (auto intro!: trace_all_print_msg)
qed

lemma run_status_0_clean:
  assumes "exit_status (fst (run e mb)) = 0" and "ev \<in> set (trace (snd (run e mb)))"
  shows "\<not> fatal_failure ev"
proof -
  let ?st = "\<lparr>clock = 0, trace = [], monthly_balance_tbl = mb\<rparr>"
  have "trace_all (\<lambda>ev. \<not> fatal_failure ev) (snd (script e ?st))"
    using assms(1) by (intro script_clean) (simp_all add: run_def trace_all_def)
  with assms(2) show ?thesis by (simp add: run_def trace_all_def)
qed

text \<open>The loops are sequential: a loop over a list is the loop over its parts in turn.\<close>

lemma cum_loop_append:
  "cum_loop e accts (xs @ ys) st =
     (case cum_loop e accts xs st of
        (Inl x, st1) \<Rightarrow> (Inl x, st1)
      | (Inr u, st1) \<Rightarrow> cum_loop e accts ys st1)"
proof (induction xs arbitrary: st)
  case Nil
  show ?case by simp
next
  case (Cons im xs)
  then show ?case by (cases im) (simp split: prod.splits sum.splits)
qed

lemma noncum_loop_append:
  "noncum_loop e accts (xs @ ys) st =
     (case noncum_loop e accts xs st of
        (Inl x, st1) \<Rightarrow> (Inl x, st1)
      | (Inr u, st1) \<Rightarrow> noncum_loop e accts ys st1)"
  by (induction xs arbitrary: st) (simp_all split: prod.splits sum.splits)

lemma cum_loop_abort:
  assumes "cum_loop e accts xs st = (Inr (), st1)"
    and "cum_month e accts i mk st1 = (Inl x, st2)"
  shows "cum_loop e accts (xs @ (i, mk) # ys) st = (Inl x, st2)
         \<and> monthly_balance_tbl st2 = monthly_balance_tbl st1 \<and> exit_status x \<noteq> 0"
  using assms cum_month_Inl[OF assms(2)] cum_month_Inl_outcome[OF assms(2)]
  by (auto simp: cum_loop_append)

lemma noncum_loop_abort:
  assumes "noncum_loop e accts xs st = (Inr (), st1)"
    and "noncum_month e accts mk st1 = (Inl x, st2)"
  shows "noncum_loop e accts (xs @ mk # ys) st = (Inl x, st2)
         \<and> monthly_balance_tbl st2 = monthly_balance_tbl st1 \<and> exit_status x \<noteq> 0"
  using assms noncum_month_Inl[OF assms(2)]
  by (auto simp: noncum_loop_append)

section \<open>The atomic batch\<close>

lemma exec_inserts_True_trace:
  "exec_inserts e rows st = (True, st') \<Longrightarrow> Stmt q False \<in> set (trace st')
   \<Longrightarrow> Stmt q False \<in> set (trace st)"
proof (induction rows arbitrary: st)
  case Nil
  then show ?case by simp
next
  case (Cons r rows)
  from Cons.prems(1) obtain st1 where
    1: "db_exec e (InsertMonthly r) st = (True, st1)" and
    2: "exec_inserts e rows
          (st1\<lparr>monthly_balance_tbl := insert_on_duplicate (monthly_balance_tbl st1) r\<rparr>) = (True, st')"
    by (auto split: prod.splits bool.splits if_splits)
  from Cons.IH[OF 2 Cons.prems(2)] 1 show ?case
    by (auto simp: db_exec_def)
qed

lemma upsert_monthly_rows_Inr_trace:
  assumes "upsert_monthly_rows e rows st = (Inr n, st')" and "Stmt q False \<in> set (trace st')"
  shows "Stmt q False \<in> set (trace st)"
proof (cases "rows = []")
  case True
  with assms show ?thesis by (simp add: upsert_monthly_rows_def)
next
  case False
  with assms(1) obtain st1 st2 where
    1: "db_exec e StartTransaction st = (True, st1)" and
    2: "exec_inserts e rows st1 = (True, st2)" and
    3: "db_exec e Commit st2 = (True, st')"
    by (auto simp: upsert_monthly_rows_def dest!: upsert_except_result
             split: prod.splits bool.splits if_splits)
  from 3 assms(2) have "Stmt q False \<in> set (trace st2)" by (auto simp: db_exec_def)
  from exec_inserts_True_trace[OF 2 this] 1 show ?thesis by (auto simp: db_exec_def)
qed

lemma run_fatal_failure_status:
  assumes "ev \<in> set (trace (snd (run e mb)))" and "fatal_failure ev"
  shows "exit_status (fst (run e mb)) \<noteq> 0"
  using run_status_0_clean[of e mb ev] assms by blast

text \<open>
  C7. \<^verbatim>\<open>upsert_monthly_rows\<close> returns 0 on an empty batch and sends nothing. On a
  non-empty batch it either returns the number of rows, every statement of the batch
  having succeeded and every row being upserted in order, or it ends the process with
  a non-zero status and \<^verbatim>\<open>monthly_balance\<close> is as it was before the batch (the
  storage engine is taken to be transactional). When the batch of a month fails after
  the loop got through the earlier months, the loop stops there and the table is the
  one those earlier months left. A run in which a statement of a batch raised does
  not end with status 0.
\<close>

theorem upsert_batch_is_atomic:
  "upsert_monthly_rows e [] st = (Inr 0, st)
   \<and> (upsert_monthly_rows e rows st = (Inl x, st') \<longrightarrow>
        monthly_balance_tbl st' = monthly_balance_tbl st \<and> exit_status x \<noteq> 0)
   \<and> (upsert_monthly_rows e rows2 u0 = (Inr n, u1) \<longrightarrow>
        n = length rows2
        \<and> monthly_balance_tbl u1 = foldl insert_on_duplicate (monthly_balance_tbl u0) rows2
        \<and> (\<forall>q. Stmt q False \<in> set (trace u1) \<longrightarrow> Stmt q False \<in> set (trace u0)))
   \<and> (cum_loop e accts xs s0 = (Inr (), s1) \<and> cum_month e accts i mk s1 = (Inl y, s2) \<longrightarrow>
        cum_loop e accts (xs @ (i, mk) # ys) s0 = (Inl y, s2)
        \<and> monthly_balance_tbl s2 = monthly_balance_tbl s1 \<and> exit_status y \<noteq> 0)
   \<and> (noncum_loop e accts' ms t0 = (Inr (), t1) \<and> noncum_month e accts' mk' t1 = (Inl z, t2) \<longrightarrow>
        noncum_loop e accts' (ms @ mk' # ms') t0 = (Inl z, t2)
        \<and> monthly_balance_tbl t2 = monthly_balance_tbl t1 \<and> exit_status z \<noteq> 0)
   \<and> (Stmt q' False \<in> set (trace (snd (run e' mb)))
        \<and> (q' = StartTransaction \<or> q' = InsertMonthly r \<or> q' = Commit \<or> q' = Rollback) \<longrightarrow>
        exit_status (fst (run e' mb)) \<noteq> 0)"
proof -
  have 1: "upsert_monthly_rows e [] st = (Inr 0, st)"
    by (simp add: upsert_monthly_rows_def)
  have 2: "upsert_monthly_rows e rows st = (Inl x, st') \<longrightarrow>
        monthly_balance_tbl st' = monthly_balance_tbl st \<and> exit_status x \<noteq> 0"
    using upsert_monthly_rows_Inl[of e rows st x st'] by auto
  have 3: "upsert_monthly_rows e rows2 u0 = (Inr n, u1) \<longrightarrow>
        n = length rows2
        \<and> monthly_balance_tbl u1 = foldl insert_on_duplicate (monthly_balance_tbl u0) rows2
        \<and> (\<forall>q. Stmt q False \<in> set (trace u1) \<longrightarrow> Stmt q False \<in> set (trace u0))"
    using upsert_monthly_rows_Inr[of e rows2 u0 n u1]
      upsert_monthly_rows_Inr_trace[of e rows2 u0 n u1] by blast
  have 4: "cum_loop e accts xs s0 = (Inr (), s1) \<and> cum_month e accts i mk s1 = (Inl y, s2) \<longrightarrow>
        cum_loop e accts (xs @ (i, mk) # ys) s0 = (Inl y, s2)
        \<and> monthly_balance_tbl s2 = monthly_balance_tbl s1 \<and> exit_status y \<noteq> 0"
    using cum_loop_abort[of e accts xs s0 s1 i mk y s2 ys] by blast
  have 5: "noncum_loop e accts' ms t0 = (Inr (), t1) \<and> noncum_month e accts' mk' t1 = (Inl z, t2) \<longrightarrow>
        noncum_loop e accts' (ms @ mk' # ms') t0 = (Inl z, t2)
        \<and> monthly_balance_tbl t2 = monthly_balance_tbl t1 \<and> exit_status z \<noteq> 0"
    using noncum_loop_abort[of e accts' ms t0 t1 mk' z t2 ms'] by blast
  have 6: "Stmt q' False \<in> set (trace (snd (run e' mb)))
        \<and> (q' = StartTransaction \<or> q' = InsertMonthly r \<or> q' = Commit \<or> q' = Rollback) \<longrightarrow>
        exit_status (fst (run e' mb)) \<noteq> 0"
    using run_fatal_failure_status[of "Stmt q' False" e' mb] by auto
  from 1 2 3 4 5 6 show ?thesis by blast
qed


lemmas eval_defs = failing_env_def example_env_def small_opening_balance_def example_state_def
  example_vouchers_def jan3_def feb3_def db_exec_def print_msg_def
  cum_month_def noncum_month_def fetch_voucher_amounts_for_month_def voucher_amounts_q_def
  upsert_monthly_rows_def upsert_except_def make_rows_def
  voucher_table_name_def voucher_table_def voucher_sum_q_def voucher_where_def
  voucher_not_in_markers_def marker_vouchers_def sql_sum_def coalesce0_def
  parse_month_key_def py_int_def is_digit_def MONTHS_def Let_def

lemma small_accounts:
  "accounts_cum small_opening_balance = [''1000'']"
  "accounts_noncum small_opening_balance = [''4000'']"
  by code_simp+

lemmas small_accounts_lit = small_accounts[unfolded small_opening_balance_def]

lemma failing_env_accounts:
  "accounts_cum (opening_balance_tbl (failing_env c)) = [''1000'']"
  "accounts_noncum (opening_balance_tbl (failing_env c)) = [''4000'']"
  by (simp_all add: failing_env_def small_accounts)

lemma failing_run_5:
  "fst (run (failing_env 5) example_monthly) = Exit 5"
  "Stmt StartTransaction False \<in> set (trace (snd (run (failing_env 5) example_monthly)))"
  by (simp_all add: run_def script_def process_cumulative_def small_accounts_lit
        required_tables_def OPENING_BALANCE_TABLE_def HISTORICAL_TABLE_def MONTHLY_TABLE_def
        enumerate_eq_zip eval_defs)


theorem upsert_batch_is_atomic_witness:
  "upsert_monthly_rows (failing_env 8)
       [\<lparr>r_account = ''1000'', r_month_key = ''2025-01'', r_balance = 1050,
         r_description = Some ''Cash'', r_account_type = Some ''Asset''\<rparr>]
       (example_state\<lparr>clock := 7\<rparr>)
     = (Inl (Exit 5),
        snd (upsert_monthly_rows (failing_env 8)
               [\<lparr>r_account = ''1000'', r_month_key = ''2025-01'', r_balance = 1050,
                 r_description = Some ''Cash'', r_account_type = Some ''Asset''\<rparr>]
               (example_state\<lparr>clock := 7\<rparr>)))
   \<and> monthly_balance_tbl
         (snd (upsert_monthly_rows (failing_env 8)
                 [\<lparr>r_account = ''1000'', r_month_key = ''2025-01'', r_balance = 1050,
                   r_description = Some ''Cash'', r_account_type = Some ''Asset''\<rparr>]
                 (example_state\<lparr>clock := 7\<rparr>)))
       = example_monthly
   \<and> fst (upsert_monthly_rows (failing_env 8)
              [\<lparr>r_account = ''1000'', r_month_key = ''2025-01'', r_balance = 1050,
                r_description = Some ''Cash'', r_account_type = Some ''Asset''\<rparr>]
              (example_state\<lparr>clock := 20\<rparr>)) = Inr 1
   \<and> stored_balance
         (snd (upsert_monthly_rows (failing_env 8)
                 [\<lparr>r_account = ''1000'', r_month_key = ''2025-01'', r_balance = 1050,
                   r_description = Some ''Cash'', r_account_type = Some ''Asset''\<rparr>]
                 (example_state\<lparr>clock := 20\<rparr>))) ''1000'' ''2025-01'' = Some 1050
   \<and> fst (cum_loop (failing_env 8) [''1000''] [(0, ''2025-01'')] example_state) = Inr ()
   \<and> fst (cum_month (failing_env 8) [''1000''] 1 ''2025-02''
             (snd (cum_loop (failing_env 8) [''1000''] [(0, ''2025-01'')] example_state)))
       = Inl (Exit 5)
   \<and> fst (cum_loop (failing_env 8) [''1000'']
             ([(0, ''2025-01'')] @ (1, ''2025-02'') # [(2, ''2025-03'')]) example_state)
       = Inl (Exit 5)
   \<and> monthly_balance_tbl
         (snd (cum_loop (failing_env 8) [''1000'']
                 ([(0, ''2025-01'')] @ (1, ''2025-02'') # [(2, ''2025-03'')]) example_state))
       = monthly_balance_tbl
           (snd (cum_loop (failing_env 8) [''1000''] [(0, ''2025-01'')] example_state))
   \<and> fst (noncum_loop (failing_env 8) [''4000''] [''2025-01''] (example_state\<lparr>clock := 2\<rparr>))
       = Inr ()
   \<and> fst (noncum_loop (failing_env 8) [''4000''] ([''2025-01''] @ ''2025-02'' # [''2025-03''])
             (example_state\<lparr>clock := 2\<rparr>))
       = Inl (Exit 5)
   \<and> monthly_balance_tbl
         (snd (noncum_loop (failing_env 8) [''4000''] ([''2025-01''] @ ''2025-02'' # [''2025-03''])
                 (example_state\<lparr>clock := 2\<rparr>)))
       = monthly_balance_tbl
           (snd (noncum_loop (failing_env 8) [''4000''] [''2025-01'']
                   (example_state\<lparr>clock := 2\<rparr>)))
   \<and> Stmt StartTransaction False \<in> set (trace (snd (run (failing_env 5) example_monthly)))
   \<and> exit_status (fst (run (failing_env 5) example_monthly)) = 5"
proof -
  let ?e = "failing_env 8"
  let ?r = "\<lparr>r_account = ''1000'', r_month_key = ''2025-01'', r_balance = 1050,
              r_description = Some ''Cash'', r_account_type = Some ''Asset''\<rparr>"
  let ?st = "example_state\<lparr>clock := 7\<rparr>"
  let ?u0 = "example_state\<lparr>clock := 20\<rparr>"
  let ?t0 = "example_state\<lparr>clock := 2\<rparr>"
  let ?s1 = "snd (cum_loop ?e [''1000''] [(0, ''2025-01'')] example_state)"
  let ?s2 = "snd (cum_month ?e [''1000''] 1 ''2025-02'' ?s1)"
  let ?t1 = "snd (noncum_loop ?e [''4000''] [''2025-01''] ?t0)"
  let ?t2 = "snd (noncum_month ?e [''4000''] ''2025-02'' ?t1)"
  have a: "fst (upsert_monthly_rows ?e [?r] ?st) = Inl (Exit 5)"
    by (simp add: eval_defs)
  have b: "fst (upsert_monthly_rows ?e [?r] ?u0) = Inr 1"
    by (simp add: eval_defs)
  have c1: "fst (cum_loop ?e [''1000''] [(0, ''2025-01'')] example_state) = Inr ()"
    by (simp add: eval_defs)
  have c2: "fst (cum_month ?e [''1000''] 1 ''2025-02'' ?s1) = Inl (Exit 5)"
    by (simp add: eval_defs)
  have n1: "fst (noncum_loop ?e [''4000''] [''2025-01''] ?t0) = Inr ()"
    by (simp add: eval_defs)
  have n2: "fst (noncum_month ?e [''4000''] ''2025-02'' ?t1) = Inl (Exit 5)"
    by (simp add: eval_defs)
  note t = upsert_batch_is_atomic[of ?e ?st "[?r]" "Exit 5" "snd (upsert_monthly_rows ?e [?r] ?st)"
      "[?r]" ?u0 1 "snd (upsert_monthly_rows ?e [?r] ?u0)"
      "[''1000'']" "[(0, ''2025-01'')]" example_state ?s1 1 "''2025-02''" "Exit 5" ?s2
      "[(2, ''2025-03'')]"
      "[''4000'']" "[''2025-01'']" ?t0 ?t1 "''2025-02''" "Exit 5" ?t2 "[''2025-03'']"
      StartTransaction "failing_env 5" example_monthly]
  have a': "upsert_monthly_rows ?e [?r] ?st = (Inl (Exit 5), snd (upsert_monthly_rows ?e [?r] ?st))"
    using a by (simp add: prod_eq_iff)
  have b': "upsert_monthly_rows ?e [?r] ?u0 = (Inr 1, snd (upsert_monthly_rows ?e [?r] ?u0))"
    using b by (simp add: prod_eq_iff)
  have c1': "cum_loop ?e [''1000''] [(0, ''2025-01'')] example_state = (Inr (), ?s1)"
    using c1 by (simp add: prod_eq_iff)
  have c2': "cum_month ?e [''1000''] 1 ''2025-02'' ?s1 = (Inl (Exit 5), ?s2)"
    using c2 by (simp add: prod_eq_iff)
  have n1': "noncum_loop ?e [''4000''] [''2025-01''] ?t0 = (Inr (), ?t1)"
    using n1 by (simp add: prod_eq_iff)
  have n2': "noncum_month ?e [''4000''] ''2025-02'' ?t1 = (Inl (Exit 5), ?t2)"
    using n2 by (simp add: prod_eq_iff)
  have r1: "monthly_balance_tbl (snd (upsert_monthly_rows ?e [?r] ?st)) = example_monthly"
    using t a' by (simp add: example_state_def)
  have r2: "stored_balance (snd (upsert_monthly_rows ?e [?r] ?u0)) ''1000'' ''2025-01'' = Some 1050"
  proof -
    have "monthly_balance_tbl (snd (upsert_monthly_rows ?e [?r] ?u0))
            = foldl insert_on_duplicate (monthly_balance_tbl ?u0) [?r]"
      using t b' by blast
    then show ?thesis
      by (simp add: stored_balance_def insert_on_duplicate_eq)
  qed
  have r3: "cum_loop ?e [''1000''] ([(0, ''2025-01'')] @ (1, ''2025-02'') # [(2, ''2025-03'')])
              example_state = (Inl (Exit 5), ?s2)
            \<and> monthly_balance_tbl ?s2 = monthly_balance_tbl ?s1"
    using t c1' c2' by blast
  have r4: "noncum_loop ?e [''4000''] ([''2025-01''] @ ''2025-02'' # [''2025-03'']) ?t0
              = (Inl (Exit 5), ?t2)
            \<and> monthly_balance_tbl ?t2 = monthly_balance_tbl ?t1"
    using t n1' n2' by blast
  have r5: "exit_status (fst (run (failing_env 5) example_monthly)) = 5"
    by (simp add: failing_run_5(1))
  have "exit_status (fst (run (failing_env 5) example_monthly)) \<noteq> 0"
    using t failing_run_5(2) by blast
  from a' r1 b r2 c1 c2 r3 n1 r4 failing_run_5(2) r5 show ?thesis
    by simp
qed

section \<open>Queries that raise\<close>

lemma income_only_accounts:
  "accounts_cum [\<lparr>ob_account = ''4000'', ob_opening_balance = Some 3,
           ob_account_type = Some ''Income'', ob_description = Some ''Sales''\<rparr>] = []"
  "accounts_noncum [\<lparr>ob_account = ''4000'', ob_opening_balance = Some 3,
           ob_account_type = Some ''Income'', ob_description = Some ''Sales''\<rparr>] = [''4000'']"
  by code_simp+

lemma income_only_run:
  "fst (run income_only_env example_monthly) = Finished"
  "voucher_error_printed (snd (run income_only_env example_monthly)) ''2025-01''"
  "Stmt (SelectVoucherAmounts ''vouchers'' 2025 1 [''4000'']) False
     \<in> set (trace (snd (run income_only_env example_monthly)))"
  by (simp_all add: run_def script_def process_cumulative_def process_noncumulative_def
        income_only_accounts income_only_env_def voucher_error_printed_def
        required_tables_def OPENING_BALANCE_TABLE_def HISTORICAL_TABLE_def MONTHLY_TABLE_def
        eval_defs)

lemma failing_run_4:
  "fst (run (failing_env 4) example_monthly) = Uncaught"
  "Stmt (SelectVoucherSum ''vouchers'' ''1000'' 2025 1) False
     \<in> set (trace (snd (run (failing_env 4) example_monthly)))"
  by (simp_all add: run_def script_def process_cumulative_def small_accounts_lit
        required_tables_def OPENING_BALANCE_TABLE_def HISTORICAL_TABLE_def MONTHLY_TABLE_def
        enumerate_eq_zip eval_defs)

lemma not_fatal_failure_False:
  "\<not> fatal_failure (Stmt q False) \<Longrightarrow> \<exists>tn y m al. q = SelectVoucherAmounts tn y m al"
  by (cases q) simp_all

lemma fetch_voucher_amounts_for_month_raises:
  assumes "fails e (clock st)" and "parse_month_key mk = Some (y, mo)"
  shows "fetch_voucher_amounts_for_month e mk accts st =
           (Map.empty,
            st\<lparr>clock := Suc (clock st),
               trace := trace st @
                 [Stmt (SelectVoucherAmounts (voucher_table_name mk) y mo accts) False,
                  Print (MsgErrorVoucher mk)]\<rparr>)"
  using assms by (simp add: fetch_voucher_amounts_for_month_def db_exec_def print_msg_def)

lemma fetch_historical_for_month_raises:
  assumes "fails e (clock st)" and "str_le mk ''2025-07'' \<or> mk = ''2025-08''"
  shows "fst (fetch_historical_for_month e mk accts sm st) = Inl (Exit 3)"
  using assms by (auto simp: fetch_historical_for_month_def db_exec_def)

lemma sum_months_raises:
  assumes "fails e (clock st)" and "parse_month_key m = Some (y, mo)"
  shows "fst (sum_months e acct (m # ms) tv st) = Inl Uncaught"
  using assms by (simp add: db_exec_def)

text \<open>
  C8. When the grouped query of \<^verbatim>\<open>fetch_voucher_amounts_for_month\<close> raises, the
  function prints its error line and returns the empty dictionary; the run goes on,
  and if it reaches its last line the balances of that month are the opening balances.
  When a query of \<^verbatim>\<open>fetch_historical_for_month\<close> raises, the function ends the
  process with status 3. When the query of one month raises inside the cumulative
  accumulation, nothing catches the exception. In a run that ends with status 0 the
  only statements that raised are grouped voucher fetches; in particular a run in which
  a query of the cumulative accumulation raised ends with a non-zero status.
\<close>

theorem query_failures_are_handled_asymmetrically:
  "(fails e (clock st) \<and> parse_month_key mk = Some (y, mo) \<longrightarrow>
      fetch_voucher_amounts_for_month e mk accts st =
        (Map.empty,
         st\<lparr>clock := Suc (clock st),
            trace := trace st @
              [Stmt (SelectVoucherAmounts (voucher_table_name mk) y mo accts) False,
               Print (MsgErrorVoucher mk)]\<rparr>))
   \<and> (fst (run e1 mb1) = Finished \<and> b \<in> set (accounts_noncum (opening_balance_tbl e1))
        \<and> i < 9 \<and> voucher_error_printed (snd (run e1 mb1)) (MONTHS ! i) \<longrightarrow>
        stored_balance (snd (run e1 mb1)) b (MONTHS ! i)
          = Some (get_or_0 (ob_map (opening_balance_tbl e1)) b))
   \<and> (fails e (clock st) \<and> (str_le hk ''2025-07'' \<or> hk = ''2025-08'') \<longrightarrow>
        fst (fetch_historical_for_month e hk accts sm st) = Inl (Exit 3))
   \<and> (fails e (clock st) \<and> parse_month_key mk = Some (y, mo) \<longrightarrow>
        fst (sum_months e acct (mk # ms) tv st) = Inl Uncaught)
   \<and> (exit_status (fst (run e1 mb1)) = 0 \<and> Stmt q False \<in> set (trace (snd (run e1 mb1))) \<longrightarrow>
        (\<exists>tn y m al. q = SelectVoucherAmounts tn y m al))
   \<and> (Stmt (SelectVoucherSum tn a y2 m2) False \<in> set (trace (snd (run e2 mb2))) \<longrightarrow>
        exit_status (fst (run e2 mb2)) \<noteq> 0)"
proof -
  have 1: "fails e (clock st) \<and> parse_month_key mk = Some (y, mo) \<longrightarrow>
      fetch_voucher_amounts_for_month e mk accts st =
        (Map.empty,
         st\<lparr>clock := Suc (clock st),
            trace := trace st @
              [Stmt (SelectVoucherAmounts (voucher_table_name mk) y mo accts) False,
               Print (MsgErrorVoucher mk)]\<rparr>)"
    using fetch_voucher_amounts_for_month_raises[of e st mk y mo accts] by blast
  have 2: "fst (run e1 mb1) = Finished \<and> b \<in> set (accounts_noncum (opening_balance_tbl e1))
        \<and> i < 9 \<and> voucher_error_printed (snd (run e1 mb1)) (MONTHS ! i) \<longrightarrow>
        stored_balance (snd (run e1 mb1)) b (MONTHS ! i)
          = Some (get_or_0 (ob_map (opening_balance_tbl e1)) b)"
    using run_Finished_stored_both[of e1 mb1 b i] by auto
  have 3: "fails e (clock st) \<and> (str_le hk ''2025-07'' \<or> hk = ''2025-08'') \<longrightarrow>
        fst (fetch_historical_for_month e hk accts sm st) = Inl (Exit 3)"
    using fetch_historical_for_month_raises[of e st hk accts sm] by blast
  have 4: "fails e (clock st) \<and> parse_month_key mk = Some (y, mo) \<longrightarrow>
        fst (sum_months e acct (mk # ms) tv st) = Inl Uncaught"
    using sum_months_raises[of e st mk y mo acct ms tv] by blast
  have 5: "exit_status (fst (run e1 mb1)) = 0 \<and> Stmt q False \<in> set (trace (snd (run e1 mb1))) \<longrightarrow>
        (\<exists>tn y m al. q = SelectVoucherAmounts tn y m al)"
    using run_status_0_clean[of e1 mb1 "Stmt q False"] not_fatal_failure_False[of q] by blast
  have 6: "Stmt (SelectVoucherSum tn a y2 m2) False \<in> set (trace (snd (run e2 mb2))) \<longrightarrow>
        exit_status (fst (run e2 mb2)) \<noteq> 0"
    using run_fatal_failure_status[of "Stmt (SelectVoucherSum tn a y2 m2) False" e2 mb2] by auto
  from 1 2 3 4 5 6 show ?thesis by blast
qed


theorem query_failures_are_handled_asymmetrically_witness:
  "fails (failing_env 0) (clock example_state)
   \<and> parse_month_key ''2025-01'' = Some (2025, 1)
   \<and> fst (fetch_voucher_amounts_for_month (failing_env 0) ''2025-01'' [''4000''] example_state)
       = Map.empty
   \<and> trace (snd (fetch_voucher_amounts_for_month (failing_env 0) ''2025-01'' [''4000'']
                   example_state))
       = [Stmt (SelectVoucherAmounts ''vouchers'' 2025 1 [''4000'']) False,
          Print (MsgErrorVoucher ''2025-01'')]
   \<and> fst (run income_only_env example_monthly) = Finished
   \<and> ''4000'' \<in> set (accounts_noncum (opening_balance_tbl income_only_env))
   \<and> voucher_error_printed (snd (run income_only_env example_monthly)) ''2025-01''
   \<and> stored_balance (snd (run income_only_env example_monthly)) ''4000'' ''2025-01'' = Some 3
   \<and> str_le ''2025-01'' ''2025-07''
   \<and> fst (fetch_historical_for_month (failing_env 0) ''2025-01'' [''4000''] True example_state)
       = Inl (Exit 3)
   \<and> fst (sum_months (failing_env 0) ''1000'' [''2025-01''] 0 example_state) = Inl Uncaught
   \<and> exit_status (fst (run income_only_env example_monthly)) = 0
   \<and> Stmt (SelectVoucherAmounts ''vouchers'' 2025 1 [''4000'']) False
       \<in> set (trace (snd (run income_only_env example_monthly)))
   \<and> Stmt (SelectVoucherSum ''vouchers'' ''1000'' 2025 1) False
       \<in> set (trace (snd (run (failing_env 4) example_monthly)))
   \<and> exit_status (fst (run (failing_env 4) example_monthly)) = 1"
proof -
  have f: "fails (failing_env 0) (clock example_state)"
    by (simp add: failing_env_def example_state_def)
  have p: "parse_month_key ''2025-01'' = Some (2025, 1)"
    by (simp add: parse_month_key_def py_int_def is_digit_def)
  have le: "str_le ''2025-01'' ''2025-07''" by simp
  have n: "''4000'' \<in> set (accounts_noncum (opening_balance_tbl income_only_env))"
    by (simp add: income_only_env_def income_only_accounts)
  have o: "get_or_0 (ob_map (opening_balance_tbl income_only_env)) ''4000'' = 3"
    by (simp add: income_only_env_def ob_map_def dict_zip_def get_or_0_def coalesce0_def)
  have i0: "(0::nat) < 9" by simp
  note t = query_failures_are_handled_asymmetrically[of "failing_env 0" example_state
      "''2025-01''" 2025 1 "[''4000'']" income_only_env example_monthly "''4000''" 0
      "''2025-01''" True "''1000''" "[]" 0 "SelectVoucherAmounts ''vouchers'' 2025 1 [''4000'']"
      "''vouchers''" "''1000''" 2025 1 "failing_env 4" example_monthly]
  have r1: "fetch_voucher_amounts_for_month (failing_env 0) ''2025-01'' [''4000''] example_state
      = (Map.empty,
         example_state\<lparr>clock := Suc (clock example_state),
            trace := trace example_state @
              [Stmt (SelectVoucherAmounts (voucher_table_name ''2025-01'') 2025 1 [''4000''])
                 False,
               Print (MsgErrorVoucher ''2025-01'')]\<rparr>)"
    using t f p by blast
  have r1a: "fst (fetch_voucher_amounts_for_month (failing_env 0) ''2025-01'' [''4000'']
                    example_state) = Map.empty"
    unfolding r1 by simp
  have r1b: "trace (snd (fetch_voucher_amounts_for_month (failing_env 0) ''2025-01'' [''4000'']
                   example_state))
       = [Stmt (SelectVoucherAmounts ''vouchers'' 2025 1 [''4000'']) False,
          Print (MsgErrorVoucher ''2025-01'')]"
    unfolding r1 by (simp add: example_state_def voucher_table_name_def)
  have r2: "stored_balance (snd (run income_only_env example_monthly)) ''4000'' ''2025-01'' = Some 3"
  proof -
    have "stored_balance (snd (run income_only_env example_monthly)) ''4000'' (MONTHS ! 0)
            = Some (get_or_0 (ob_map (opening_balance_tbl income_only_env)) ''4000'')"
      using t income_only_run(1,2) n i0 unfolding MONTHS_0 by blast
    then show ?thesis by (simp add: MONTHS_0 o)
  qed
  have r3: "fst (fetch_historical_for_month (failing_env 0) ''2025-01'' [''4000''] True
                   example_state) = Inl (Exit 3)"
    using t f le by blast
  have r4: "fst (sum_months (failing_env 0) ''1000'' [''2025-01''] 0 example_state) = Inl Uncaught"
    using t f p by blast
  have r5: "exit_status (fst (run income_only_env example_monthly)) = 0"
    by (simp add: income_only_run(1))
  have "\<exists>tn y m al. SelectVoucherAmounts ''vouchers'' 2025 1 [''4000'']
          = SelectVoucherAmounts tn y m al"
    using t r5 income_only_run(3) by blast
  have "exit_status (fst (run (failing_env 4) example_monthly)) \<noteq> 0"
    using t failing_run_4(2) by blast
  have r6: "exit_status (fst (run (failing_env 4) example_monthly)) = 1"
    by (simp add: failing_run_4(1))
  from f p r1a r1b income_only_run n r2 le r3 r4 r5 failing_run_4(2) r6 show ?thesis
    by simp
qed

section \<open>A second run\<close>

lemma final_table_env_cong:
  assumes "opening_balance_tbl e' = opening_balance_tbl e"
    and "vouchers_tbl e' = vouchers_tbl e"
    and "vouchers_curr_month_tbl e' = vouchers_curr_month_tbl e"
  shows "final_table e' F t = final_table e F t"
proof -
  have v: "\<And>tn. voucher_table e' tn = voucher_table e tn"
    using assms by (simp add: voucher_table_def)
  have m: "month_total e' = month_total e"
    by (intro ext) (simp add: month_total_def v split: option.splits)
  have c: "cum_total e' = cum_total e"
    by (intro ext) (simp add: cum_total_def m)
  have d: "noncum_delta e' = noncum_delta e"
    by (intro ext) (simp add: noncum_delta_def m)
  show ?thesis
    using assms(1) by (simp add: final_table_def noncum_table_def cum_table_def c d)
qed

lemma final_table_cong_failed:
  assumes "\<And>m. m \<in> set MONTHS \<Longrightarrow> F m = G m"
  shows "final_table e F t = final_table e G t"
  unfolding final_table_def by (rule noncum_table_cong) (rule assms)

lemma final_table_other_month:
  "m \<notin> set MONTHS \<Longrightarrow> final_table e F t (a, m) = t (a, m)"
  by (simp add: final_table_def noncum_table_other cum_table_other snd_enumerate_MONTHS)

lemma final_table_other_account:
  "a \<notin> set (accounts_cum (opening_balance_tbl e)) \<Longrightarrow>
   a \<notin> set (accounts_noncum (opening_balance_tbl e)) \<Longrightarrow> final_table e F t (a, m) = t (a, m)"
  by (simp add: final_table_def noncum_table_other cum_table_other)

lemma final_table_both:
  assumes "a \<in> set (accounts_noncum (opening_balance_tbl e))"
    and "a \<in> set (accounts_cum (opening_balance_tbl e))" and "i < 9"
  shows "final_table e F t (a, MONTHS ! i) =
           Some (merged_row (t (a, MONTHS ! i))
                   (get_or_0 (ob_map (opening_balance_tbl e)) a + noncum_delta e F (MONTHS ! i) a)
                   (dict_get (ob_desc_map (opening_balance_tbl e)) a)
                   (dict_get (ob_type_map (opening_balance_tbl e)) a))"
  using assms
  by (simp add: final_table_noncum merged_row_twice
        cum_table_at[OF enumerate_MONTHS_distinct enumerate_MONTHS_mem])

lemma final_table_noncum_only:
  assumes "a \<in> set (accounts_noncum (opening_balance_tbl e))"
    and "a \<notin> set (accounts_cum (opening_balance_tbl e))" and "i < 9"
  shows "final_table e F t (a, MONTHS ! i) =
           Some (merged_row (t (a, MONTHS ! i))
                   (get_or_0 (ob_map (opening_balance_tbl e)) a + noncum_delta e F (MONTHS ! i) a)
                   (dict_get (ob_desc_map (opening_balance_tbl e)) a)
                   (dict_get (ob_type_map (opening_balance_tbl e)) a))"
  using assms
  by (simp add: final_table_noncum cum_table_other)

lemma final_table_idem: "final_table e F (final_table e F t) = final_table e F t"
proof (rule ext)
  fix k :: "string \<times> string"
  obtain a m where k: "k = (a, m)" by (cases k)
  show "final_table e F (final_table e F t) k = final_table e F t k"
  proof (cases "m \<in> set MONTHS")
    case False
    then show ?thesis by (simp add: k final_table_other_month)
  next
    case True
    then obtain i where i: "i < 9" and m: "m = MONTHS ! i"
      by (auto simp: in_set_conv_nth length_MONTHS)
    show ?thesis
    proof (cases "a \<in> set (accounts_noncum (opening_balance_tbl e))")
      case n: True
      show ?thesis
      proof (cases "a \<in> set (accounts_cum (opening_balance_tbl e))")
        case True
        then show ?thesis
          by (simp add: k m final_table_both[OF n True i] merged_row_twice)
      next
        case False
        then show ?thesis
          by (simp add: k m final_table_noncum_only[OF n False i] merged_row_twice)
      qed
    next
      case n: False
      show ?thesis
      proof (cases "a \<in> set (accounts_cum (opening_balance_tbl e))")
        case True
        then show ?thesis
          by (simp add: k m final_table_cum_only[OF True n i] merged_row_twice)
      next
        case False
        then show ?thesis by (simp add: k final_table_other_account[OF False n])
      qed
    qed
  qed
qed

text \<open>
  C9. A second run on the table the first run left, with the opening balances and the
  two voucher tables unchanged, leaves \<^verbatim>\<open>monthly_balance\<close> as the first run left it,
  balances, descriptions and account types alike. Both runs are taken to reach their
  last line, with the voucher fetch of each month raising in both or in neither (in
  particular when no statement raises at all).
\<close>

theorem second_run_changes_nothing:
  assumes "fst (run e mb) = Finished"
    and "fst (run e' (monthly_balance_tbl (snd (run e mb)))) = Finished"
    and "opening_balance_tbl e' = opening_balance_tbl e"
    and "vouchers_tbl e' = vouchers_tbl e"
    and "vouchers_curr_month_tbl e' = vouchers_curr_month_tbl e"
    and "\<forall>m\<in>set MONTHS.
           voucher_error_printed (snd (run e' (monthly_balance_tbl (snd (run e mb))))) m
           = voucher_error_printed (snd (run e mb)) m"
  shows "monthly_balance_tbl (snd (run e' (monthly_balance_tbl (snd (run e mb)))))
           = monthly_balance_tbl (snd (run e mb))"
proof -
  let ?F = "voucher_error_printed (snd (run e mb))"
  let ?t1 = "monthly_balance_tbl (snd (run e mb))"
  have 1: "?t1 = final_table e ?F mb" by (rule run_Finished_table[OF assms(1)])
  have "monthly_balance_tbl (snd (run e' ?t1))
          = final_table e' (voucher_error_printed (snd (run e' ?t1))) ?t1"
    by (rule run_Finished_table[OF assms(2)])
  also have "\<dots> = final_table e' ?F ?t1"
    using assms(6) by (intro final_table_cong_failed) simp
  also have "\<dots> = final_table e ?F ?t1"
    by (rule final_table_env_cong[OF assms(3,4,5)])
  also have "\<dots> = final_table e ?F (final_table e ?F mb)" using 1 by simp
  also have "\<dots> = final_table e ?F mb" by (rule final_table_idem)
  finally show ?thesis using 1 by simp
qed

theorem second_run_changes_nothing_witness:
  "fst (run example_env example_monthly) = Finished
   \<and> fst (run example_env (monthly_balance_tbl (snd (run example_env example_monthly)))) = Finished
   \<and> voucher_error_printed
         (snd (run example_env (monthly_balance_tbl (snd (run example_env example_monthly)))))
         ''2025-02''
       = voucher_error_printed (snd (run example_env example_monthly)) ''2025-02''
   \<and> monthly_balance_tbl
         (snd (run example_env (monthly_balance_tbl (snd (run example_env example_monthly)))))
       = monthly_balance_tbl (snd (run example_env example_monthly))
   \<and> stored_balance
         (snd (run example_env (monthly_balance_tbl (snd (run example_env example_monthly)))))
         ''1000'' ''2025-02'' = Some 1030"
proof -
  let ?t1 = "monthly_balance_tbl (snd (run example_env example_monthly))"
  have h1: "fst (run example_env example_monthly) = Finished" by (rule example_run_Finished)
  have h2: "fst (run example_env ?t1) = Finished" by (rule example_run_Finished)
  have h6: "\<forall>m\<in>set MONTHS. voucher_error_printed (snd (run example_env ?t1)) m
              = voucher_error_printed (snd (run example_env example_monthly)) m"
    using run_ok_unprinted[OF example_no_failures] by simp
  have eq: "monthly_balance_tbl (snd (run example_env ?t1)) = ?t1"
    using second_run_changes_nothing[OF h1 h2 _ _ _ h6] by simp
  have c: "''1000'' \<in> set (accounts_cum (opening_balance_tbl example_env))"
    "''1000'' \<notin> set (accounts_noncum (opening_balance_tbl example_env))"
    by (simp_all add: example_accounts_cum example_accounts_noncum)
  have "stored_balance (snd (run example_env example_monthly)) ''1000'' ''2025-02'' = Some 1030"
    using run_Finished_stored_cum[OF h1 c, of 1] example_sums
    by (simp add: cum_total_sum MONTHS_1 example_ob_map numeral_2_eq_2)
  then have "stored_balance (snd (run example_env ?t1)) ''1000'' ''2025-02'' = Some 1030"
    using eq by (simp add: stored_balance_def)
  moreover have "voucher_error_printed (snd (run example_env ?t1)) ''2025-02''
       = voucher_error_printed (snd (run example_env example_monthly)) ''2025-02''"
    using h6 by (simp add: MONTHS_def)
  ultimately show ?thesis using h1 h2 eq by simp
qed

section \<open>The balances and the metadata in the terms of the specification\<close>

lemma dict_zip_find:
  "dict_zip (map (\<lambda>r. (ob_account r, f r)) rows) a
     = map_option f (find (\<lambda>r. ob_account r = a) (rev rows))"
proof (induction rows rule: rev_induct)
  case Nil
  show ?case by (simp add: dict_zip_def)
next
  case (snoc x xs)
  have "dict_zip (map (\<lambda>r. (ob_account r, f r)) (xs @ [x]))
          = (dict_zip (map (\<lambda>r. (ob_account r, f r)) xs))(ob_account x \<mapsto> f x)"
    using dict_zip_snoc[of "map (\<lambda>r. (ob_account r, f r)) xs" "(ob_account x, f x)"] by simp
  then show ?case using snoc.IH by simp
qed

lemma ob_map_snapshot:
  "get_or_0 (ob_map rows) a = opening_balance_of rows a"
  by (simp add: ob_map_def dict_zip_find get_or_0_def opening_balance_of_def snapshot_row_def
        coalesce0_def split: option.splits)

lemma ob_desc_map_snapshot:
  "dict_get (ob_desc_map rows) a = description_of rows a"
  by (simp add: ob_desc_map_def dict_zip_find dict_get_def description_of_def snapshot_row_def
        split: option.splits)

lemma ob_type_map_snapshot:
  "dict_get (ob_type_map rows) a = account_type_of rows a"
  by (simp add: ob_type_map_def dict_zip_find dict_get_def account_type_of_def snapshot_row_def
        split: option.splits)

lemma merged_row_kept_or_filled:
  "merged_row old bal desc typ =
     \<lparr>mb_opening_balance = Some bal,
      mb_description = kept_or_filled (map_option mb_description old) desc,
      mb_account_type = kept_or_filled (map_option mb_account_type old) typ\<rparr>"
  by (auto simp: merged_row_def kept_or_filled_def ifnull_def nullif_empty_def
           split: option.splits)

lemma voucher_where_marker_tagged:
  "v_voucher r \<noteq> None \<Longrightarrow>
     voucher_where a y m r \<longleftrightarrow>
       (v_account_code r = a \<and> d_year (v_transaction_date r) = y
        \<and> d_month (v_transaction_date r) = m \<and> \<not> marker_tagged r)"
  by (auto simp: voucher_where_def voucher_not_in_markers_def marker_tagged_def)

lemma voucher_sum_q_month_activity:
  assumes "list_all (\<lambda>r. v_voucher r \<noteq> None) (rows_of_month y m tbl)"
  shows "voucher_sum_q tbl a y m = month_activity tbl a y m"
proof -
  have "filter (voucher_where a y m) tbl
          = filter (\<lambda>r. v_account_code r = a \<and> d_year (v_transaction_date r) = y
                       \<and> d_month (v_transaction_date r) = m \<and> \<not> marker_tagged r) tbl"
  proof (rule filter_cong[OF refl])
    fix r assume r: "r \<in> set tbl"
    show "voucher_where a y m r
            = (v_account_code r = a \<and> d_year (v_transaction_date r) = y
               \<and> d_month (v_transaction_date r) = m \<and> \<not> marker_tagged r)"
    proof (cases "d_year (v_transaction_date r) = y \<and> d_month (v_transaction_date r) = m")
      case True
      then have "r \<in> set (rows_of_month y m tbl)" using r by (simp add: rows_of_month_def)
      then have "v_voucher r \<noteq> None" using assms by (simp add: list_all_iff)
      then show ?thesis by (rule voucher_where_marker_tagged)
    next
      case False
      then show ?thesis by (auto simp: voucher_where_def)
    qed
  qed
  then show ?thesis by (simp add: voucher_sum_q_eq_sum_list month_activity_def)
qed

lemma list_all_rows_of_month:
  "list_all P tbl \<Longrightarrow> list_all P (rows_of_month y m tbl)"
  by (simp add: rows_of_month_def list_all_iff)

lemma foldl_insert_on_duplicate_other:
  "k \<notin> row_key ` set rows \<Longrightarrow> foldl insert_on_duplicate t rows k = t k"
  by (induction rows arbitrary: t) (auto simp: insert_on_duplicate_eq row_key_def)

lemma foldl_insert_on_duplicate_at:
  "distinct (map row_key rows) \<Longrightarrow> r \<in> set rows \<Longrightarrow>
     foldl insert_on_duplicate t rows (row_key r)
       = Some (merged_row (t (row_key r)) (r_balance r) (r_description r) (r_account_type r))"
proof (induction rows arbitrary: t)
  case Nil
  then show ?case by simp
next
  case (Cons x xs)
  show ?case
  proof (cases "r = x")
    case True
    have "row_key x \<notin> row_key ` set xs" using Cons.prems(1) by simp
    then have "foldl insert_on_duplicate (insert_on_duplicate t x) xs (row_key x)
                 = insert_on_duplicate t x (row_key x)"
      by (rule foldl_insert_on_duplicate_other)
    moreover have "insert_on_duplicate t x (row_key x)
                 = Some (merged_row (t (row_key x)) (r_balance x) (r_description x)
                           (r_account_type x))"
      by (simp add: insert_on_duplicate_eq row_key_def)
    ultimately show ?thesis using True by simp
  next
    case False
    then have in_xs: "r \<in> set xs" using Cons.prems(2) by simp
    then have ne: "row_key x \<noteq> row_key r" using Cons.prems(1) by auto
    have "foldl insert_on_duplicate (insert_on_duplicate t x) xs (row_key r)
            = Some (merged_row (insert_on_duplicate t x (row_key r)) (r_balance r)
                      (r_description r) (r_account_type r))"
      using Cons.prems(1) in_xs by (intro Cons.IH) simp_all
    moreover have "insert_on_duplicate t x (row_key r) = t (row_key r)"
      using ne by (auto simp: insert_on_duplicate_eq row_key_def)
    ultimately show ?thesis by simp
  qed
qed

lemma run_Finished_row_noncum:
  assumes "fst (run e mb) = Finished"
    and "a \<in> set (accounts_noncum (opening_balance_tbl e))" and "i < 9"
  shows "monthly_balance_tbl (snd (run e mb)) (a, MONTHS ! i) =
           Some (merged_row (mb (a, MONTHS ! i))
                   (get_or_0 (ob_map (opening_balance_tbl e)) a
                    + (if voucher_error_printed (snd (run e mb)) (MONTHS ! i) then 0
                       else voucher_sum_q (table_of_index e i) a 2025 (i + 1)))
                   (dict_get (ob_desc_map (opening_balance_tbl e)) a)
                   (dict_get (ob_type_map (opening_balance_tbl e)) a))"
proof (cases "a \<in> set (accounts_cum (opening_balance_tbl e))")
  case True
  show ?thesis
    unfolding run_Finished_table[OF assms(1)]
    using final_table_both[OF assms(2) True assms(3)]
    by (simp add: noncum_delta_def month_total_nth[OF assms(3)])
next
  case False
  show ?thesis
    unfolding run_Finished_table[OF assms(1)]
    using final_table_noncum_only[OF assms(2) False assms(3)]
    by (simp add: noncum_delta_def month_total_nth[OF assms(3)])
qed

lemma run_Finished_row_cum:
  assumes "fst (run e mb) = Finished"
    and "a \<in> set (accounts_cum (opening_balance_tbl e))"
    and "a \<notin> set (accounts_noncum (opening_balance_tbl e))" and "i < 9"
  shows "monthly_balance_tbl (snd (run e mb)) (a, MONTHS ! i) =
           Some (merged_row (mb (a, MONTHS ! i))
                   (get_or_0 (ob_map (opening_balance_tbl e)) a
                    + (\<Sum>k\<le>i. voucher_sum_q (table_of_index e k) a 2025 (k + 1)))
                   (dict_get (ob_desc_map (opening_balance_tbl e)) a)
                   (dict_get (ob_type_map (opening_balance_tbl e)) a))"
  unfolding run_Finished_table[OF assms(1)]
  using final_table_cum_only[OF assms(2) assms(3) assms(4)]
  by (simp add: cum_total_sum[OF assms(4)])

lemma sum_month_activity:
  assumes "list_all (\<lambda>r. v_voucher r \<noteq> None) (vouchers_tbl e)"
    and "list_all (\<lambda>r. v_voucher r \<noteq> None) (vouchers_curr_month_tbl e)"
  shows "voucher_sum_q (table_of_index e k) a y m = month_activity (table_of_index e k) a y m"
  using assms
  by (intro voucher_sum_q_month_activity list_all_rows_of_month) (simp add: table_of_index_def)

section \<open>A transaction without a voucher tag\<close>

lemma example_snapshot:
  "opening_balance_of (opening_balance_tbl example_env) ''1000'' = 1000"
  "opening_balance_of (opening_balance_tbl example_env) ''4000'' = 20"
  "description_of (opening_balance_tbl example_env) ''1000'' = Some ''Cash''"
  "description_of (opening_balance_tbl example_env) ''4000'' = Some ''Sales''"
  "account_type_of (opening_balance_tbl example_env) ''1000'' = Some ''Asset''"
  "account_type_of (opening_balance_tbl example_env) ''4000'' = Some ''Income''"
  by (simp_all add: opening_balance_of_def description_of_def account_type_of_def
        snapshot_row_def example_env_def example_opening_balance_def)

lemma example_activity:
  "month_activity (vouchers_tbl example_env) ''1000'' 2025 1 = 50"
  "month_activity (vouchers_tbl example_env) ''4000'' 2025 1 = 7"
  "month_activity (vouchers_tbl example_env) ''4000'' 2025 2 = 5"
  "month_activity (vouchers_curr_month_tbl example_env) ''4000'' 2025 8 = 0"
  by (simp_all add: month_activity_def marker_tagged_def marker_vouchers_def coalesce0_def
        example_env_def example_vouchers_def jan3_def feb3_def)

lemma example_untagged_facts:
  "\<forall>n. \<not> fails example_env_untagged n"
  "set required_tables \<subseteq> set (tables example_env_untagged)"
  "opening_balance_tbl example_env_untagged = opening_balance_tbl example_env"
  by (simp_all add: example_env_untagged_def example_env_def required_tables_def
        OPENING_BALANCE_TABLE_def HISTORICAL_TABLE_def MONTHLY_TABLE_def)

lemma example_untagged_sums:
  "voucher_sum_q (table_of_index example_env_untagged 0) ''1000'' 2025 1 = 50"
  "voucher_sum_q (table_of_index example_env_untagged 1) ''1000'' 2025 2 = - 20"
  "month_activity (vouchers_tbl example_env_untagged) ''1000'' 2025 1 = 150"
  "month_activity (vouchers_tbl example_env_untagged) ''1000'' 2025 2 = - 20"
  by (simp_all add: example_env_untagged_def example_env_def example_vouchers_def
        table_of_index_def voucher_sum_q_def voucher_where_def voucher_not_in_markers_def
        marker_vouchers_def sql_sum_def coalesce0_def jan3_def feb3_def
        month_activity_def marker_tagged_def)

text \<open>
  C1. The balance of a cumulative account is meant to be its opening balance plus the
  monthly sums of its transactions from the first month of the window on, the
  transactions tagged with one of the three marker vouchers left out. The query of the
  cumulative loop leaves out more: \<^verbatim>\<open>voucher NOT IN (...)\<close> is not true of a NULL
  voucher, so a transaction with no voucher tag is dropped although it carries no
  marker. In the small database with one more January transaction of the asset account,
  of amount 100 and without a tag, the January transactions without markers sum to 150
  and those of February to -20, which makes 1150 and 1130 on the opening balance of
  1000; the run reaches its last line and stores 1050 and 1030.
\<close>

theorem untagged_transaction_missing_from_cumulative_balance:
  "fst (run example_env_untagged Map.empty) = Finished
   \<and> ''1000'' \<in> set (accounts_cum (opening_balance_tbl example_env_untagged))
   \<and> ''1000'' \<notin> set (accounts_noncum (opening_balance_tbl example_env_untagged))
   \<and> opening_balance_of (opening_balance_tbl example_env_untagged) ''1000'' = 1000
   \<and> month_activity (vouchers_tbl example_env_untagged) ''1000'' 2025 1 = 150
   \<and> month_activity (vouchers_tbl example_env_untagged) ''1000'' 2025 2 = - 20
   \<and> stored_balance (snd (run example_env_untagged Map.empty)) ''1000'' ''2025-01'' = Some 1050
   \<and> stored_balance (snd (run example_env_untagged Map.empty)) ''1000'' ''2025-02'' = Some 1030"
proof -
  let ?e = example_env_untagged
  have f: "fst (run ?e Map.empty) = Finished"
    using run_ok[OF example_untagged_facts(1,2), of Map.empty]
    by (simp add: example_untagged_facts(3) example_accounts_cum)
  have c: "''1000'' \<in> set (accounts_cum (opening_balance_tbl ?e))"
    "''1000'' \<notin> set (accounts_noncum (opening_balance_tbl ?e))"
    by (simp_all add: example_untagged_facts(3) example_accounts_cum example_accounts_noncum)
  have ob: "opening_balance_of (opening_balance_tbl ?e) ''1000'' = 1000"
    by (simp add: example_untagged_facts(3) example_snapshot)
  have s0: "(\<Sum>k\<le>0. voucher_sum_q (table_of_index ?e k) ''1000'' 2025 (k + 1)) = 50"
    using example_untagged_sums(1) by simp
  have s1: "(\<Sum>k\<le>1. voucher_sum_q (table_of_index ?e k) ''1000'' 2025 (k + 1)) = 30"
    using example_untagged_sums(1,2) by (simp add: numeral_2_eq_2)
  have jan: "stored_balance (snd (run ?e Map.empty)) ''1000'' ''2025-01'' = Some 1050"
    using run_Finished_stored_cum[OF f c, of 0] s0
    by (simp add: cum_total_sum MONTHS_0 ob_map_snapshot ob)
  have feb: "stored_balance (snd (run ?e Map.empty)) ''1000'' ''2025-02'' = Some 1030"
    using run_Finished_stored_cum[OF f c, of 1] s1
    by (simp add: cum_total_sum MONTHS_1 ob_map_snapshot ob)
  from f c ob example_untagged_sums(3,4) jan feb show ?thesis by simp
qed

section \<open>The balance of a non-cumulative account\<close>

lemma income_only_facts:
  "''4000'' \<in> set (accounts_noncum (opening_balance_tbl income_only_env))"
  "opening_balance_of (opening_balance_tbl income_only_env) ''4000'' = 3"
  "month_activity (vouchers_tbl income_only_env) ''4000'' 2025 1 = 7"
  "vouchers_tbl income_only_env = vouchers_tbl example_env"
  "table_of_index income_only_env 0 = vouchers_tbl example_env"
  by (simp_all add: income_only_env_def income_only_accounts opening_balance_of_def
        snapshot_row_def month_activity_def marker_tagged_def marker_vouchers_def coalesce0_def
        example_env_def example_vouchers_def jan3_def feb3_def table_of_index_def)

text \<open>
  C4, as stated, fails. The database holds the income account alone, with opening
  balance 3 and January transactions that sum to 7, and the voucher fetch of January
  raises. \<^verbatim>\<open>fetch_voucher_amounts_for_month\<close> catches the exception, prints its error
  line and returns the empty dictionary; the run reaches its last line and the balance
  written for January is 3, the opening balance alone, not 3 + 7.
\<close>

theorem periodic_balance_after_failed_fetch_counterexample:
  "fst (run income_only_env example_monthly) = Finished
   \<and> ''4000'' \<in> set (accounts_noncum (opening_balance_tbl income_only_env))
   \<and> opening_balance_of (opening_balance_tbl income_only_env) ''4000'' = 3
   \<and> month_activity (vouchers_tbl income_only_env) ''4000'' 2025 1 = 7
   \<and> stored_balance (snd (run income_only_env example_monthly)) ''4000'' ''2025-01'' = Some 3
   \<and> stored_balance (snd (run income_only_env example_monthly)) ''4000'' ''2025-01''
       \<noteq> Some (3 + 7)"
proof -
  have "stored_balance (snd (run income_only_env example_monthly)) ''4000'' ''2025-01'' = Some 3"
    using run_Finished_stored_both[OF income_only_run(1) income_only_facts(1), of 0]
      income_only_run(2)
    by (simp add: MONTHS_0 ob_map_snapshot income_only_facts(2))
  with income_only_run(1) income_only_facts(1,2,3) show ?thesis by simp
qed

text \<open>
  C4, amended. For an account of the non-cumulative group and a month of the window, a
  run that reaches its last line leaves as balance the opening balance of the account
  plus the delta of that month alone: the sum of the amounts of the account's
  transactions dated in the month, marker vouchers left out (every transaction of the
  month carrying a voucher tag, amounts added exactly), or 0 when
  \<^verbatim>\<open>fetch_voucher_amounts_for_month\<close> caught an exception for the month and printed its
  error line. So two finished runs on the same opening balances agree on the balance of
  the month whenever the voucher rows dated in that month agree and the fetch of the
  month raised in both or in neither, whatever the other months hold.
\<close>

theorem periodic_balance_is_opening_plus_fetched_month:
  assumes "fst (run e mb) = Finished"
    and "a \<in> set (accounts_noncum (opening_balance_tbl e))" and "i < 9"
  shows "(list_all (\<lambda>r. v_voucher r \<noteq> None) (rows_of_month 2025 (i + 1) (table_of_index e i)) \<longrightarrow>
          stored_balance (snd (run e mb)) a (MONTHS ! i) =
            Some (opening_balance_of (opening_balance_tbl e) a
                  + (if voucher_error_printed (snd (run e mb)) (MONTHS ! i) then 0
                     else month_activity (table_of_index e i) a 2025 (i + 1))))
         \<and> (\<forall>e' mb'.
               fst (run e' mb') = Finished
               \<and> opening_balance_tbl e' = opening_balance_tbl e
               \<and> rows_of_month 2025 (i + 1) (table_of_index e' i)
                   = rows_of_month 2025 (i + 1) (table_of_index e i)
               \<and> voucher_error_printed (snd (run e' mb')) (MONTHS ! i)
                   = voucher_error_printed (snd (run e mb)) (MONTHS ! i)
               \<longrightarrow> stored_balance (snd (run e' mb')) a (MONTHS ! i)
                   = stored_balance (snd (run e mb)) a (MONTHS ! i))"
proof (intro conjI allI impI)
  assume t: "list_all (\<lambda>r. v_voucher r \<noteq> None) (rows_of_month 2025 (i + 1) (table_of_index e i))"
  show "stored_balance (snd (run e mb)) a (MONTHS ! i) =
            Some (opening_balance_of (opening_balance_tbl e) a
                  + (if voucher_error_printed (snd (run e mb)) (MONTHS ! i) then 0
                     else month_activity (table_of_index e i) a 2025 (i + 1)))"
    using run_Finished_stored_both[OF assms] voucher_sum_q_month_activity[OF t, of a]
    by (simp add: ob_map_snapshot)
next
  fix e' mb'
  assume h: "fst (run e' mb') = Finished
               \<and> opening_balance_tbl e' = opening_balance_tbl e
               \<and> rows_of_month 2025 (i + 1) (table_of_index e' i)
                   = rows_of_month 2025 (i + 1) (table_of_index e i)
               \<and> voucher_error_printed (snd (run e' mb')) (MONTHS ! i)
                   = voucher_error_printed (snd (run e mb)) (MONTHS ! i)"
  then have "a \<in> set (accounts_noncum (opening_balance_tbl e'))" using assms(2) by simp
  from run_Finished_stored_noncum[OF _ this assms(3), of mb'] h
       run_Finished_stored_noncum[OF assms]
  show "stored_balance (snd (run e' mb')) a (MONTHS ! i)
          = stored_balance (snd (run e mb)) a (MONTHS ! i)"
    by simp
qed

theorem periodic_balance_is_opening_plus_fetched_month_witness:
  "fst (run example_env example_monthly) = Finished
   \<and> ''4000'' \<in> set (accounts_noncum (opening_balance_tbl example_env)) \<and> (1::nat) < 9
   \<and> list_all (\<lambda>r. v_voucher r \<noteq> None) (rows_of_month 2025 2 (table_of_index example_env 1))
   \<and> opening_balance_of (opening_balance_tbl example_env) ''4000'' = 20
   \<and> \<not> voucher_error_printed (snd (run example_env example_monthly)) ''2025-02''
   \<and> month_activity (table_of_index example_env 1) ''4000'' 2025 2 = 5
   \<and> stored_balance (snd (run example_env example_monthly)) ''4000'' ''2025-02'' = Some 25
   \<and> fst (run example_env_more_january Map.empty) = Finished
   \<and> opening_balance_tbl example_env_more_january = opening_balance_tbl example_env
   \<and> rows_of_month 2025 2 (table_of_index example_env_more_january 1)
       = rows_of_month 2025 2 (table_of_index example_env 1)
   \<and> voucher_error_printed (snd (run example_env_more_january Map.empty)) ''2025-02''
       = voucher_error_printed (snd (run example_env example_monthly)) ''2025-02''
   \<and> vouchers_tbl example_env_more_january \<noteq> vouchers_tbl example_env
   \<and> stored_balance (snd (run example_env_more_january Map.empty)) ''4000'' ''2025-02'' = Some 25"
proof -
  have h1: "fst (run example_env example_monthly) = Finished" by (rule example_run_Finished)
  have h2: "''4000'' \<in> set (accounts_noncum (opening_balance_tbl example_env))"
    by (simp add: example_accounts_noncum)
  have h3: "(1::nat) < 9" by simp
  have ti: "table_of_index example_env 1 = vouchers_tbl example_env"
    by (simp add: table_of_index_def)
  have one: "(1::nat) + 1 = 2" by simp
  have tg2: "list_all (\<lambda>r. v_voucher r \<noteq> None)
              (rows_of_month 2025 2 (table_of_index example_env 1))"
    by (simp add: rows_of_month_def table_of_index_def example_env_def example_vouchers_def
          jan3_def feb3_def)
  have tg: "list_all (\<lambda>r. v_voucher r \<noteq> None)
              (rows_of_month 2025 (1 + 1) (table_of_index example_env 1))"
    using tg2 by (simp only: one)
  have mm: "''2025-02'' \<in> set MONTHS" by (simp add: MONTHS_def)
  have u: "\<not> voucher_error_printed (snd (run example_env example_monthly)) ''2025-02''"
    by (rule example_feb_unprinted)
  have u': "\<not> voucher_error_printed (snd (run example_env_more_january Map.empty)) ''2025-02''"
    by (rule run_ok_unprinted[OF example_more_january_facts(1) mm])
  have f': "fst (run example_env_more_january Map.empty) = Finished"
    using run_ok[OF example_more_january_facts(1,3), of Map.empty]
    by (simp add: example_more_january_facts(2) example_accounts_cum)
  have r2: "rows_of_month 2025 2 (table_of_index example_env_more_january 1)
             = rows_of_month 2025 2 (table_of_index example_env 1)"
    by (simp add: rows_of_month_def table_of_index_def example_env_more_january_def
          example_env_def jan3_def)
  have r: "rows_of_month 2025 (1 + 1) (table_of_index example_env_more_january 1)
             = rows_of_month 2025 (1 + 1) (table_of_index example_env 1)"
    using r2 by (simp only: one)
  have ne: "vouchers_tbl example_env_more_january \<noteq> vouchers_tbl example_env"
    by (simp add: example_env_more_january_def example_env_def)
  have act2: "month_activity (table_of_index example_env 1) ''4000'' 2025 2 = 5"
    using example_activity(3) by (simp only: ti)
  have act: "month_activity (table_of_index example_env 1) ''4000'' 2025 (1 + 1) = 5"
    using act2 by (simp only: one)
  note t = periodic_balance_is_opening_plus_fetched_month[OF h1 h2 h3]
  have a: "stored_balance (snd (run example_env example_monthly)) ''4000'' ''2025-02'' = Some 25"
  proof -
    from t tg have "stored_balance (snd (run example_env example_monthly)) ''4000'' (MONTHS ! 1) =
            Some (opening_balance_of (opening_balance_tbl example_env) ''4000''
                  + (if voucher_error_printed (snd (run example_env example_monthly)) (MONTHS ! 1)
                     then 0
                     else month_activity (table_of_index example_env 1) ''4000'' 2025 (1 + 1)))"
      by blast
    then show ?thesis using u by (simp only: MONTHS_1 act example_snapshot if_False) simp
  qed
  have b: "stored_balance (snd (run example_env_more_january Map.empty)) ''4000'' ''2025-02''
             = Some 25"
  proof -
    from t have "fst (run example_env_more_january Map.empty) = Finished
               \<and> opening_balance_tbl example_env_more_january = opening_balance_tbl example_env
               \<and> rows_of_month 2025 (1 + 1) (table_of_index example_env_more_january 1)
                   = rows_of_month 2025 (1 + 1) (table_of_index example_env 1)
               \<and> voucher_error_printed (snd (run example_env_more_january Map.empty)) (MONTHS ! 1)
                   = voucher_error_printed (snd (run example_env example_monthly)) (MONTHS ! 1)
               \<longrightarrow> stored_balance (snd (run example_env_more_january Map.empty)) ''4000'' (MONTHS ! 1)
                   = stored_balance (snd (run example_env example_monthly)) ''4000'' (MONTHS ! 1)"
      by blast
    then show ?thesis using f' example_more_january_facts(2) r u u' a by (simp add: MONTHS_1)
  qed
  from h1 h2 h3 tg2 example_snapshot(2) u u' act2 a f' example_more_january_facts(2) r2 ne b
  show ?thesis by simp
qed

section \<open>The deltas of every month\<close>

lemma example_tagged:
  "list_all (\<lambda>r. v_voucher r \<noteq> None) (vouchers_tbl example_env)"
  "list_all (\<lambda>r. v_voucher r \<noteq> None) (vouchers_curr_month_tbl example_env)"
  by (simp_all add: example_env_def example_vouchers_def)

lemma MONTHS_7: "MONTHS ! 7 = ''2025-08''"
  by (simp add: MONTHS_def)

lemma example_aug_unprinted:
  "\<not> voucher_error_printed (snd (run example_env mb)) ''2025-08''"
  by (rule run_ok_unprinted[OF example_no_failures]) (simp add: MONTHS_def)

text \<open>
  C2, amended. For every month of the window, the months up to 2025-07 included, the
  delta behind a stored balance comes from the voucher tables and not from
  \<^verbatim>\<open>historical_variance\<close>. With every transaction carrying a voucher tag and amounts
  added exactly, a run that reaches its last line leaves, for the month with index \<open>i\<close>:
  for an account of the cumulative group alone, its opening balance plus the sum over
  the months \<open>0\<close> to \<open>i\<close> of the amounts of its transactions dated in the month, marker
  vouchers left out; for an account of the non-cumulative group, its opening balance
  plus that sum for the month \<open>i\<close> alone, or plus 0 when the voucher fetch of the month
  raised and was caught. The months up to 2025-07 are read from \<^verbatim>\<open>vouchers\<close>, the later
  ones from \<^verbatim>\<open>vouchers_curr_month\<close>. The rows of \<^verbatim>\<open>historical_variance\<close> have no
  influence on the run, and no run sends a query of \<^verbatim>\<open>fetch_historical_for_month\<close>,
  which for a month up to 2025-07 would return, its query not raising, the smoothed
  amounts when \<^verbatim>\<open>use_smoothened\<close> is set and the journal amounts otherwise.
\<close>

theorem deltas_of_every_month_come_from_vouchers:
  assumes "fst (run e mb) = Finished" and "i < 9"
    and "list_all (\<lambda>r. v_voucher r \<noteq> None) (vouchers_tbl e)"
    and "list_all (\<lambda>r. v_voucher r \<noteq> None) (vouchers_curr_month_tbl e)"
  shows "(a \<in> set (accounts_cum (opening_balance_tbl e))
          \<and> a \<notin> set (accounts_noncum (opening_balance_tbl e)) \<longrightarrow>
          stored_balance (snd (run e mb)) a (MONTHS ! i) =
            Some (opening_balance_of (opening_balance_tbl e) a
                  + (\<Sum>k\<le>i. month_activity (table_of_index e k) a 2025 (k + 1))))
       \<and> (b \<in> set (accounts_noncum (opening_balance_tbl e)) \<longrightarrow>
          stored_balance (snd (run e mb)) b (MONTHS ! i) =
            Some (opening_balance_of (opening_balance_tbl e) b
                  + (if voucher_error_printed (snd (run e mb)) (MONTHS ! i) then 0
                     else month_activity (table_of_index e i) b 2025 (i + 1))))
       \<and> run (e\<lparr>historical_variance_tbl := h\<rparr>) mb = run e mb
       \<and> Stmt (SelectHistorical s mk al) ok \<notin> set (trace (snd (run e mb)))
       \<and> Stmt (SelectCurrMonthAugust al) ok \<notin> set (trace (snd (run e mb)))
       \<and> (i < 7 \<and> \<not> fails e (clock st) \<longrightarrow>
          fst (fetch_historical_for_month e (MONTHS ! i) accts True st) =
            Inr (dict_zip (map (\<lambda>r. (h_account r, coalesce0 (h_smoothened_amount r)))
                   (filter (\<lambda>r. h_month_key r = MONTHS ! i \<and> h_account r \<in> set accts)
                      (historical_variance_tbl e))))
          \<and> fst (fetch_historical_for_month e (MONTHS ! i) accts False st) =
            Inr (dict_zip (map (\<lambda>r. (h_account r, coalesce0 (h_journal_amount r)))
                   (filter (\<lambda>r. h_month_key r = MONTHS ! i \<and> h_account r \<in> set accts)
                      (historical_variance_tbl e)))))"
proof -
  note act = sum_month_activity[OF assms(3,4)]
  have 1: "a \<in> set (accounts_cum (opening_balance_tbl e))
          \<and> a \<notin> set (accounts_noncum (opening_balance_tbl e)) \<longrightarrow>
          stored_balance (snd (run e mb)) a (MONTHS ! i) =
            Some (opening_balance_of (opening_balance_tbl e) a
                  + (\<Sum>k\<le>i. month_activity (table_of_index e k) a 2025 (k + 1)))"
    using run_Finished_stored_cum[OF assms(1) _ _ assms(2), of a]
    by (simp add: cum_total_sum[OF assms(2)] act ob_map_snapshot)
  have 2: "b \<in> set (accounts_noncum (opening_balance_tbl e)) \<longrightarrow>
          stored_balance (snd (run e mb)) b (MONTHS ! i) =
            Some (opening_balance_of (opening_balance_tbl e) b
                  + (if voucher_error_printed (snd (run e mb)) (MONTHS ! i) then 0
                     else month_activity (table_of_index e i) b 2025 (i + 1)))"
    using run_Finished_stored_both[OF assms(1) _ assms(2), of b]
    by (simp add: act ob_map_snapshot)
  have 3: "run (e\<lparr>historical_variance_tbl := h\<rparr>) mb = run e mb" by (rule run_hist)
  have 4: "Stmt (SelectHistorical s mk al) ok \<notin> set (trace (snd (run e mb)))"
    "Stmt (SelectCurrMonthAugust al) ok \<notin> set (trace (snd (run e mb)))"
    using run_no_reader_event[of "Stmt (SelectHistorical s mk al) ok" e mb]
      run_no_reader_event[of "Stmt (SelectCurrMonthAugust al) ok" e mb] by auto
  have 5: "i < 7 \<and> \<not> fails e (clock st) \<longrightarrow>
          fst (fetch_historical_for_month e (MONTHS ! i) accts True st) =
            Inr (dict_zip (map (\<lambda>r. (h_account r, coalesce0 (h_smoothened_amount r)))
                   (filter (\<lambda>r. h_month_key r = MONTHS ! i \<and> h_account r \<in> set accts)
                      (historical_variance_tbl e))))
          \<and> fst (fetch_historical_for_month e (MONTHS ! i) accts False st) =
            Inr (dict_zip (map (\<lambda>r. (h_account r, coalesce0 (h_journal_amount r)))
                   (filter (\<lambda>r. h_month_key r = MONTHS ! i \<and> h_account r \<in> set accts)
                      (historical_variance_tbl e))))"
    using fetch_historical_for_month_smoothened[OF str_le_nth_MONTHS, of i e st accts]
      fetch_historical_for_month_journal[OF str_le_nth_MONTHS, of i e st accts]
    by blast
  from 1 2 3 4 5 show ?thesis by blast
qed

theorem deltas_of_every_month_come_from_vouchers_witness:
  "fst (run example_env example_monthly) = Finished \<and> (0::nat) < 9 \<and> (7::nat) < 9
   \<and> list_all (\<lambda>r. v_voucher r \<noteq> None) (vouchers_tbl example_env)
   \<and> list_all (\<lambda>r. v_voucher r \<noteq> None) (vouchers_curr_month_tbl example_env)
   \<and> ''1000'' \<in> set (accounts_cum (opening_balance_tbl example_env))
   \<and> ''1000'' \<notin> set (accounts_noncum (opening_balance_tbl example_env))
   \<and> opening_balance_of (opening_balance_tbl example_env) ''1000'' = 1000
   \<and> month_activity (vouchers_tbl example_env) ''1000'' 2025 1 = 50
   \<and> stored_balance (snd (run example_env example_monthly)) ''1000'' ''2025-01'' = Some 1050
   \<and> ''4000'' \<in> set (accounts_noncum (opening_balance_tbl example_env))
   \<and> opening_balance_of (opening_balance_tbl example_env) ''4000'' = 20
   \<and> month_activity (vouchers_tbl example_env) ''4000'' 2025 1 = 7
   \<and> stored_balance (snd (run example_env example_monthly)) ''4000'' ''2025-01'' = Some 27
   \<and> month_activity (vouchers_curr_month_tbl example_env) ''4000'' 2025 8 = 0
   \<and> stored_balance (snd (run example_env example_monthly)) ''4000'' ''2025-08'' = Some 20
   \<and> Stmt (SelectHistorical True ''2025-01'' [''1000'']) True
       \<notin> set (trace (snd (run example_env example_monthly)))
   \<and> Stmt (SelectCurrMonthAugust [''1000'']) True
       \<notin> set (trace (snd (run example_env example_monthly)))
   \<and> (0::nat) < 7 \<and> \<not> fails example_env (clock example_state)
   \<and> fst (fetch_historical_for_month example_env ''2025-01'' [''1000''] True example_state)
       = Inr (dict_zip [(''1000'', 500)])
   \<and> fst (fetch_historical_for_month example_env ''2025-01'' [''1000''] False example_state)
       = Inr (dict_zip [(''1000'', 300)])"
proof -
  have h1: "fst (run example_env example_monthly) = Finished" by (rule example_run_Finished)
  have h2: "(0::nat) < 9" by simp
  have h2': "(7::nat) < 9" by simp
  have c: "''1000'' \<in> set (accounts_cum (opening_balance_tbl example_env))"
    "''1000'' \<notin> set (accounts_noncum (opening_balance_tbl example_env))"
    "''4000'' \<in> set (accounts_noncum (opening_balance_tbl example_env))"
    by (simp_all add: example_accounts_cum example_accounts_noncum)
  have f: "\<not> fails example_env (clock example_state)" by (simp add: example_env_def)
  have ti: "table_of_index example_env 0 = vouchers_tbl example_env"
    "table_of_index example_env 7 = vouchers_curr_month_tbl example_env"
    by (simp_all add: table_of_index_def)
  note t = deltas_of_every_month_come_from_vouchers[OF h1 h2 example_tagged,
      where a = "''1000''" and b = "''4000''" and h = "[]" and s = True
        and mk = "''2025-01''" and al = "[''1000'']" and ok = True
        and st = example_state and accts = "[''1000'']"]
  note t7 = deltas_of_every_month_come_from_vouchers[OF h1 h2' example_tagged,
      where b = "''4000''"]
  have a: "stored_balance (snd (run example_env example_monthly)) ''1000'' ''2025-01'' = Some 1050"
    using t c example_activity(1) by (simp add: MONTHS_0 example_snapshot ti)
  have b: "stored_balance (snd (run example_env example_monthly)) ''4000'' ''2025-01'' = Some 27"
    using t c example_activity(2) example_jan_unprinted
    by (simp add: MONTHS_0 example_snapshot ti)
  have b7: "stored_balance (snd (run example_env example_monthly)) ''4000'' ''2025-08'' = Some 20"
    using t7 c example_activity(4) example_aug_unprinted
    by (simp add: MONTHS_7 example_snapshot ti)
  have n: "Stmt (SelectHistorical True ''2025-01'' [''1000'']) True
       \<notin> set (trace (snd (run example_env example_monthly)))"
    "Stmt (SelectCurrMonthAugust [''1000'']) True
       \<notin> set (trace (snd (run example_env example_monthly)))"
    using t by blast+
  have hs: "fst (fetch_historical_for_month example_env ''2025-01'' [''1000''] True example_state)
       = Inr (dict_zip [(''1000'', 500)])"
    using t f by (simp add: MONTHS_0 example_env_def coalesce0_def)
  have hj: "fst (fetch_historical_for_month example_env ''2025-01'' [''1000''] False example_state)
       = Inr (dict_zip [(''1000'', 300)])"
    using t f by (simp add: MONTHS_0 example_env_def coalesce0_def)
  from h1 example_tagged c example_snapshot(1,2) example_activity(1,2,4) a b b7 n f hs hj
  show ?thesis by simp
qed

section \<open>The balance writer\<close>

lemma MONTHS_2: "MONTHS ! 2 = ''2025-03''"
  by (simp add: MONTHS_def)

lemma example_mar_unprinted:
  "\<not> voucher_error_printed (snd (run example_env mb)) ''2025-03''"
  by (rule run_ok_unprinted[OF example_no_failures]) (simp add: MONTHS_def)

lemma example_sums_march:
  "voucher_sum_q (table_of_index example_env 2) ''4000'' 2025 (2 + 1) = 0"
  by (simp add: example_env_def example_vouchers_def table_of_index_def voucher_sum_q_def
        voucher_where_def voucher_not_in_markers_def marker_vouchers_def sql_sum_def
        coalesce0_def jan3_def feb3_def)

lemma example_upsert_one:
  "upsert_monthly_rows example_env
     [\<lparr>r_account = ''1000'', r_month_key = ''2025-01'', r_balance = 1050,
       r_description = Some ''Cash'', r_account_type = Some ''Asset''\<rparr>] example_state
   = (Inr 1, snd (upsert_monthly_rows example_env
        [\<lparr>r_account = ''1000'', r_month_key = ''2025-01'', r_balance = 1050,
          r_description = Some ''Cash'', r_account_type = Some ''Asset''\<rparr>] example_state))"
  by (simp add: upsert_monthly_rows_def db_exec_def example_env_def)

text \<open>
  C6. A batch that \<^verbatim>\<open>upsert_monthly_rows\<close> commits (one row for each key) leaves under
  the key of each of its rows the incoming balance, and as description and account
  type the incoming value when no row was there or the stored value was NULL or the
  empty string, and the stored value otherwise. So does a run that reaches its last
  line, for every account of a group and every month of the window: the balance is the
  newly computed one, whatever was stored, and description and account type are those
  of the opening-balance record of the account only where nothing, NULL or the empty
  string was stored. And a non-empty description or account type found in
  \<^verbatim>\<open>monthly_balance\<close> is still there, unchanged, after any run, however the run ends.
\<close>

theorem upsert_overwrites_balance_and_fills_empty_metadata:
  "(upsert_monthly_rows e rows st = (Inr n, st') \<and> distinct (map row_key rows) \<and> r \<in> set rows
      \<longrightarrow>
      monthly_balance_tbl st' (row_key r) =
        Some \<lparr>mb_opening_balance = Some (r_balance r),
              mb_description =
                kept_or_filled (map_option mb_description (monthly_balance_tbl st (row_key r)))
                  (r_description r),
              mb_account_type =
                kept_or_filled (map_option mb_account_type (monthly_balance_tbl st (row_key r)))
                  (r_account_type r)\<rparr>)
   \<and> (fst (run e mb) = Finished \<and> a \<in> set (accounts_noncum (opening_balance_tbl e)) \<and> i < 9
      \<longrightarrow>
      monthly_balance_tbl (snd (run e mb)) (a, MONTHS ! i) =
        Some \<lparr>mb_opening_balance =
                Some (opening_balance_of (opening_balance_tbl e) a
                      + (if voucher_error_printed (snd (run e mb)) (MONTHS ! i) then 0
                         else voucher_sum_q (table_of_index e i) a 2025 (i + 1))),
              mb_description =
                kept_or_filled (map_option mb_description (mb (a, MONTHS ! i)))
                  (description_of (opening_balance_tbl e) a),
              mb_account_type =
                kept_or_filled (map_option mb_account_type (mb (a, MONTHS ! i)))
                  (account_type_of (opening_balance_tbl e) a)\<rparr>)
   \<and> (fst (run e mb) = Finished \<and> c \<in> set (accounts_cum (opening_balance_tbl e))
      \<and> c \<notin> set (accounts_noncum (opening_balance_tbl e)) \<and> j < 9 \<longrightarrow>
      monthly_balance_tbl (snd (run e mb)) (c, MONTHS ! j) =
        Some \<lparr>mb_opening_balance =
                Some (opening_balance_of (opening_balance_tbl e) c
                      + (\<Sum>k\<le>j. voucher_sum_q (table_of_index e k) c 2025 (k + 1))),
              mb_description =
                kept_or_filled (map_option mb_description (mb (c, MONTHS ! j)))
                  (description_of (opening_balance_tbl e) c),
              mb_account_type =
                kept_or_filled (map_option mb_account_type (mb (c, MONTHS ! j)))
                  (account_type_of (opening_balance_tbl e) c)\<rparr>)
   \<and> (mb k1 = Some old1 \<and> mb_description old1 = Some d \<and> d \<noteq> [] \<longrightarrow>
        map_option mb_description (monthly_balance_tbl (snd (run e mb)) k1) = Some (Some d))
   \<and> (mb k2 = Some old2 \<and> mb_account_type old2 = Some ty \<and> ty \<noteq> [] \<longrightarrow>
        map_option mb_account_type (monthly_balance_tbl (snd (run e mb)) k2) = Some (Some ty))"
proof -
  have 1: "upsert_monthly_rows e rows st = (Inr n, st') \<and> distinct (map row_key rows)
      \<and> r \<in> set rows \<longrightarrow>
      monthly_balance_tbl st' (row_key r) =
        Some \<lparr>mb_opening_balance = Some (r_balance r),
              mb_description =
                kept_or_filled (map_option mb_description (monthly_balance_tbl st (row_key r)))
                  (r_description r),
              mb_account_type =
                kept_or_filled (map_option mb_account_type (monthly_balance_tbl st (row_key r)))
                  (r_account_type r)\<rparr>"
  proof (intro impI, elim conjE)
    assume u: "upsert_monthly_rows e rows st = (Inr n, st')"
      and dk: "distinct (map row_key rows)" and r: "r \<in> set rows"
    have "monthly_balance_tbl st' = foldl insert_on_duplicate (monthly_balance_tbl st) rows"
      using upsert_monthly_rows_Inr[OF u] by simp
    then show "monthly_balance_tbl st' (row_key r) =
        Some \<lparr>mb_opening_balance = Some (r_balance r),
              mb_description =
                kept_or_filled (map_option mb_description (monthly_balance_tbl st (row_key r)))
                  (r_description r),
              mb_account_type =
                kept_or_filled (map_option mb_account_type (monthly_balance_tbl st (row_key r)))
                  (r_account_type r)\<rparr>"
      using foldl_insert_on_duplicate_at[OF dk r, of "monthly_balance_tbl st"]
      by (simp add: merged_row_kept_or_filled)
  qed
  have 2: "fst (run e mb) = Finished \<and> a \<in> set (accounts_noncum (opening_balance_tbl e)) \<and> i < 9
      \<longrightarrow>
      monthly_balance_tbl (snd (run e mb)) (a, MONTHS ! i) =
        Some \<lparr>mb_opening_balance =
                Some (opening_balance_of (opening_balance_tbl e) a
                      + (if voucher_error_printed (snd (run e mb)) (MONTHS ! i) then 0
                         else voucher_sum_q (table_of_index e i) a 2025 (i + 1))),
              mb_description =
                kept_or_filled (map_option mb_description (mb (a, MONTHS ! i)))
                  (description_of (opening_balance_tbl e) a),
              mb_account_type =
                kept_or_filled (map_option mb_account_type (mb (a, MONTHS ! i)))
                  (account_type_of (opening_balance_tbl e) a)\<rparr>"
    using run_Finished_row_noncum[of e mb a i]
    by (simp add: merged_row_kept_or_filled ob_map_snapshot ob_desc_map_snapshot
          ob_type_map_snapshot)
  have 3: "fst (run e mb) = Finished \<and> c \<in> set (accounts_cum (opening_balance_tbl e))
      \<and> c \<notin> set (accounts_noncum (opening_balance_tbl e)) \<and> j < 9 \<longrightarrow>
      monthly_balance_tbl (snd (run e mb)) (c, MONTHS ! j) =
        Some \<lparr>mb_opening_balance =
                Some (opening_balance_of (opening_balance_tbl e) c
                      + (\<Sum>k\<le>j. voucher_sum_q (table_of_index e k) c 2025 (k + 1))),
              mb_description =
                kept_or_filled (map_option mb_description (mb (c, MONTHS ! j)))
                  (description_of (opening_balance_tbl e) c),
              mb_account_type =
                kept_or_filled (map_option mb_account_type (mb (c, MONTHS ! j)))
                  (account_type_of (opening_balance_tbl e) c)\<rparr>"
    using run_Finished_row_cum[of e mb c j]
    by (simp add: merged_row_kept_or_filled ob_map_snapshot ob_desc_map_snapshot
          ob_type_map_snapshot)
  have 4: "mb k1 = Some old1 \<and> mb_description old1 = Some d \<and> d \<noteq> [] \<longrightarrow>
        map_option mb_description (monthly_balance_tbl (snd (run e mb)) k1) = Some (Some d)"
    using run_keeps_metadata[of mb k1 old1 e] by auto
  have 5: "mb k2 = Some old2 \<and> mb_account_type old2 = Some ty \<and> ty \<noteq> [] \<longrightarrow>
        map_option mb_account_type (monthly_balance_tbl (snd (run e mb)) k2) = Some (Some ty)"
    using run_keeps_metadata[of mb k2 old2 e] by auto
  from 1 2 3 4 5 show ?thesis by blast
qed

theorem upsert_overwrites_balance_and_fills_empty_metadata_witness:
  "example_monthly (''1000'', ''2025-01'')
     = Some \<lparr>mb_opening_balance = Some 77, mb_description = Some ''Petty cash'',
             mb_account_type = Some []\<rparr>
   \<and> example_monthly (''4000'', ''2025-03'')
       = Some \<lparr>mb_opening_balance = None, mb_description = None,
               mb_account_type = Some ''Revenue''\<rparr>
   \<and> upsert_monthly_rows example_env
       [\<lparr>r_account = ''1000'', r_month_key = ''2025-01'', r_balance = 1050,
         r_description = Some ''Cash'', r_account_type = Some ''Asset''\<rparr>] example_state
     = (Inr 1, snd (upsert_monthly_rows example_env
          [\<lparr>r_account = ''1000'', r_month_key = ''2025-01'', r_balance = 1050,
            r_description = Some ''Cash'', r_account_type = Some ''Asset''\<rparr>] example_state))
   \<and> monthly_balance_tbl (snd (upsert_monthly_rows example_env
          [\<lparr>r_account = ''1000'', r_month_key = ''2025-01'', r_balance = 1050,
            r_description = Some ''Cash'', r_account_type = Some ''Asset''\<rparr>] example_state))
        (''1000'', ''2025-01'')
       = Some \<lparr>mb_opening_balance = Some 1050, mb_description = Some ''Petty cash'',
               mb_account_type = Some ''Asset''\<rparr>
   \<and> fst (run example_env example_monthly) = Finished
   \<and> ''4000'' \<in> set (accounts_noncum (opening_balance_tbl example_env)) \<and> (2::nat) < 9
   \<and> monthly_balance_tbl (snd (run example_env example_monthly)) (''4000'', ''2025-03'')
       = Some \<lparr>mb_opening_balance = Some 20, mb_description = Some ''Sales'',
               mb_account_type = Some ''Revenue''\<rparr>
   \<and> ''1000'' \<in> set (accounts_cum (opening_balance_tbl example_env))
   \<and> ''1000'' \<notin> set (accounts_noncum (opening_balance_tbl example_env)) \<and> (0::nat) < 9
   \<and> monthly_balance_tbl (snd (run example_env example_monthly)) (''1000'', ''2025-01'')
       = Some \<lparr>mb_opening_balance = Some 1050, mb_description = Some ''Petty cash'',
               mb_account_type = Some ''Asset''\<rparr>
   \<and> ''Petty cash'' \<noteq> [] \<and> ''Revenue'' \<noteq> []
   \<and> map_option mb_description
         (monthly_balance_tbl (snd (run example_env example_monthly)) (''1000'', ''2025-01''))
       = Some (Some ''Petty cash'')
   \<and> map_option mb_account_type
         (monthly_balance_tbl (snd (run example_env example_monthly)) (''4000'', ''2025-03''))
       = Some (Some ''Revenue'')"
proof -
  let ?r = "\<lparr>r_account = ''1000'', r_month_key = ''2025-01'', r_balance = 1050,
              r_description = Some ''Cash'', r_account_type = Some ''Asset''\<rparr>"
  let ?o1 = "\<lparr>mb_opening_balance = Some 77, mb_description = Some ''Petty cash'',
               mb_account_type = Some []\<rparr>"
  let ?o2 = "\<lparr>mb_opening_balance = None, mb_description = None,
               mb_account_type = Some ''Revenue''\<rparr>"
  let ?st' = "snd (upsert_monthly_rows example_env [?r] example_state)"
  have k1: "example_monthly (''1000'', ''2025-01'') = Some ?o1"
    by (simp add: example_monthly_def)
  have k2: "example_monthly (''4000'', ''2025-03'') = Some ?o2"
    by (simp add: example_monthly_def)
  have u: "upsert_monthly_rows example_env [?r] example_state = (Inr 1, ?st')"
    by (rule example_upsert_one)
  have h1: "fst (run example_env example_monthly) = Finished" by (rule example_run_Finished)
  have c: "''4000'' \<in> set (accounts_noncum (opening_balance_tbl example_env))"
    "''1000'' \<in> set (accounts_cum (opening_balance_tbl example_env))"
    "''1000'' \<notin> set (accounts_noncum (opening_balance_tbl example_env))"
    by (simp_all add: example_accounts_cum example_accounts_noncum)
  have l: "(2::nat) < 9" "(0::nat) < 9" by simp_all
  have s0: "(\<Sum>k\<le>0. voucher_sum_q (table_of_index example_env k) ''1000'' 2025 (k + 1)) = 50"
    using example_sums(1) by simp
  note t = upsert_overwrites_balance_and_fills_empty_metadata[where e = example_env
      and rows = "[?r]" and st = example_state and n = 1 and st' = ?st' and r = ?r
      and mb = example_monthly and a = "''4000''" and i = 2 and c = "''1000''" and j = 0
      and ?k1.0 = "(''1000'', ''2025-01'')" and ?old1.0 = ?o1 and d = "''Petty cash''"
      and ?k2.0 = "(''4000'', ''2025-03'')" and ?old2.0 = ?o2 and ty = "''Revenue''"]
  have w: "monthly_balance_tbl ?st' (''1000'', ''2025-01'')
       = Some \<lparr>mb_opening_balance = Some 1050, mb_description = Some ''Petty cash'',
               mb_account_type = Some ''Asset''\<rparr>"
  proof -
    have "monthly_balance_tbl ?st' (row_key ?r) =
        Some \<lparr>mb_opening_balance = Some (r_balance ?r),
              mb_description =
                kept_or_filled (map_option mb_description (monthly_balance_tbl example_state (row_key ?r)))
                  (r_description ?r),
              mb_account_type =
                kept_or_filled (map_option mb_account_type (monthly_balance_tbl example_state (row_key ?r)))
                  (r_account_type ?r)\<rparr>"
      using t u by simp
    then show ?thesis
      by (simp add: row_key_def example_state_def k1 kept_or_filled_def)
  qed
  have n: "monthly_balance_tbl (snd (run example_env example_monthly)) (''4000'', ''2025-03'')
       = Some \<lparr>mb_opening_balance = Some 20, mb_description = Some ''Sales'',
               mb_account_type = Some ''Revenue''\<rparr>"
  proof -
    have "monthly_balance_tbl (snd (run example_env example_monthly)) (''4000'', MONTHS ! 2) =
        Some \<lparr>mb_opening_balance =
                Some (opening_balance_of (opening_balance_tbl example_env) ''4000''
                      + (if voucher_error_printed (snd (run example_env example_monthly)) (MONTHS ! 2)
                         then 0
                         else voucher_sum_q (table_of_index example_env 2) ''4000'' 2025 (2 + 1))),
              mb_description =
                kept_or_filled (map_option mb_description (example_monthly (''4000'', MONTHS ! 2)))
                  (description_of (opening_balance_tbl example_env) ''4000''),
              mb_account_type =
                kept_or_filled (map_option mb_account_type (example_monthly (''4000'', MONTHS ! 2)))
                  (account_type_of (opening_balance_tbl example_env) ''4000'')\<rparr>"
      using t h1 c(1) l(1) by blast
    then show ?thesis
      using example_mar_unprinted[of example_monthly]
      by (simp only: MONTHS_2 example_sums_march example_snapshot k2 if_False)
         (simp add: kept_or_filled_def)
  qed
  have m: "monthly_balance_tbl (snd (run example_env example_monthly)) (''1000'', ''2025-01'')
       = Some \<lparr>mb_opening_balance = Some 1050, mb_description = Some ''Petty cash'',
               mb_account_type = Some ''Asset''\<rparr>"
  proof -
    have "monthly_balance_tbl (snd (run example_env example_monthly)) (''1000'', MONTHS ! 0) =
        Some \<lparr>mb_opening_balance =
                Some (opening_balance_of (opening_balance_tbl example_env) ''1000''
                      + (\<Sum>k\<le>0. voucher_sum_q (table_of_index example_env k) ''1000'' 2025 (k + 1))),
              mb_description =
                kept_or_filled (map_option mb_description (example_monthly (''1000'', MONTHS ! 0)))
                  (description_of (opening_balance_tbl example_env) ''1000''),
              mb_account_type =
                kept_or_filled (map_option mb_account_type (example_monthly (''1000'', MONTHS ! 0)))
                  (account_type_of (opening_balance_tbl example_env) ''1000'')\<rparr>"
      using t h1 c(2,3) l(2) by blast
    then show ?thesis
      by (simp only: MONTHS_0 s0 example_snapshot k1) (simp add: kept_or_filled_def)
  qed
  have d: "map_option mb_description
         (monthly_balance_tbl (snd (run example_env example_monthly)) (''1000'', ''2025-01''))
       = Some (Some ''Petty cash'')"
    using t k1 by simp
  have ty: "map_option mb_account_type
         (monthly_balance_tbl (snd (run example_env example_monthly)) (''4000'', ''2025-03''))
       = Some (Some ''Revenue'')"
    using t k2 by simp
  from k1 k2 u w h1 c l n m d ty show ?thesis by simp
qed

end
